theory Spec2Isabelle
  imports Main "HOL-Library.Word"
begin

unbundle bit_operations_syntax

section \<open>Machine state of lc3.c\<close>

text \<open>
  The globals of \<^verbatim>\<open>lc3.c\<close>: \<^verbatim>\<open>uint16_t reg[R_COUNT]\<close> and
  \<^verbatim>\<open>uint16_t memory[UINT16_MAX]\<close>, together with the two streams the program talks to
  (\<^verbatim>\<open>stdin\<close> as the bytes still to be read, \<^verbatim>\<open>stdout\<close> as the bytes written so far) and
  the local \<^verbatim>\<open>running\<close> of \<^verbatim>\<open>main\<close>. Arrays are functions from the index; the length of
  an array is kept beside it and every access that C leaves undefined (an index at or
  beyond the length) is a fault value.
\<close>

abbreviation (input) R_R0 :: nat where "R_R0 \<equiv> 0"
abbreviation (input) R_R1 :: nat where "R_R1 \<equiv> 1"
abbreviation (input) R_R2 :: nat where "R_R2 \<equiv> 2"
abbreviation (input) R_R3 :: nat where "R_R3 \<equiv> 3"
abbreviation (input) R_R4 :: nat where "R_R4 \<equiv> 4"
abbreviation (input) R_R5 :: nat where "R_R5 \<equiv> 5"
abbreviation (input) R_R6 :: nat where "R_R6 \<equiv> 6"
abbreviation (input) R_R7 :: nat where "R_R7 \<equiv> 7"
abbreviation (input) R_PC :: nat where "R_PC \<equiv> 8"
abbreviation (input) R_COND :: nat where "R_COND \<equiv> 9"
abbreviation (input) R_COUNT :: nat where "R_COUNT \<equiv> 10"

abbreviation (input) UINT16_MAX :: nat where "UINT16_MAX \<equiv> 65535"

abbreviation (input) FL_POS :: "16 word" where "FL_POS \<equiv> 1"
abbreviation (input) FL_ZRO :: "16 word" where "FL_ZRO \<equiv> 2"
abbreviation (input) FL_NEG :: "16 word" where "FL_NEG \<equiv> 4"

abbreviation (input) OP_BR :: "16 word" where "OP_BR \<equiv> 0"
abbreviation (input) OP_ADD :: "16 word" where "OP_ADD \<equiv> 1"
abbreviation (input) OP_LD :: "16 word" where "OP_LD \<equiv> 2"
abbreviation (input) OP_ST :: "16 word" where "OP_ST \<equiv> 3"
abbreviation (input) OP_JSR :: "16 word" where "OP_JSR \<equiv> 4"
abbreviation (input) OP_AND :: "16 word" where "OP_AND \<equiv> 5"
abbreviation (input) OP_LDR :: "16 word" where "OP_LDR \<equiv> 6"
abbreviation (input) OP_STR :: "16 word" where "OP_STR \<equiv> 7"
abbreviation (input) OP_RTI :: "16 word" where "OP_RTI \<equiv> 8"
abbreviation (input) OP_NOT :: "16 word" where "OP_NOT \<equiv> 9"
abbreviation (input) OP_LDI :: "16 word" where "OP_LDI \<equiv> 10"
abbreviation (input) OP_STI :: "16 word" where "OP_STI \<equiv> 11"
abbreviation (input) OP_JMP :: "16 word" where "OP_JMP \<equiv> 12"
abbreviation (input) OP_RES :: "16 word" where "OP_RES \<equiv> 13"
abbreviation (input) OP_LEA :: "16 word" where "OP_LEA \<equiv> 14"
abbreviation (input) OP_TRAP :: "16 word" where "OP_TRAP \<equiv> 15"

abbreviation (input) MR_KBSR :: "16 word" where "MR_KBSR \<equiv> 0xFE00"
abbreviation (input) MR_KBDR :: "16 word" where "MR_KBDR \<equiv> 0xFE02"

abbreviation (input) TRAP_GETC :: "16 word" where "TRAP_GETC \<equiv> 0x20"
abbreviation (input) TRAP_OUT :: "16 word" where "TRAP_OUT \<equiv> 0x21"
abbreviation (input) TRAP_PUTS :: "16 word" where "TRAP_PUTS \<equiv> 0x22"
abbreviation (input) TRAP_IN :: "16 word" where "TRAP_IN \<equiv> 0x23"
abbreviation (input) TRAP_PUTSP :: "16 word" where "TRAP_PUTSP \<equiv> 0x24"
abbreviation (input) TRAP_HALT :: "16 word" where "TRAP_HALT \<equiv> 0x25"

record machine =
  reg :: "nat \<Rightarrow> 16 word"
  memory :: "nat \<Rightarrow> 16 word"
  stdin :: "8 word list"
  stdout :: "8 word list"
  running :: bool

text \<open>
  \<open>Abort\<close> is the call of \<^verbatim>\<open>abort()\<close>; \<open>OutOfBounds\<close> is an access to
  \<^verbatim>\<open>memory\<close> outside its \<^verbatim>\<open>UINT16_MAX\<close> cells. A fault carries the machine state at
  the moment it happens.
\<close>

datatype fault = Abort | OutOfBounds

type_synonym 'a result = "(fault \<times> machine) + 'a"

section \<open>Helpers\<close>

text \<open>
  \<^verbatim>\<open>sign_extend(x, bit_count)\<close>. The constant \<^verbatim>\<open>0xFFFF\<close> is an \<^verbatim>\<open>int\<close>, the shift is done
  there and the \<^verbatim>\<open>|=\<close> truncates back to 16 bits, which is the 16-bit shift of
  \<^verbatim>\<open>0xFFFF\<close>. Every call passes a literal width (5, 6, 9 or 11).
\<close>

definition sign_extend :: "16 word \<Rightarrow> nat \<Rightarrow> 16 word" where
  "sign_extend x bit_count =
     (if (drop_bit (bit_count - 1) x) AND 1 \<noteq> 0
      then x OR (push_bit bit_count 0xFFFF)
      else x)"

definition swap16 :: "16 word \<Rightarrow> 16 word" where
  "swap16 x = (push_bit 8 x) OR (drop_bit 8 x)"


text \<open>
  \<^verbatim>\<open>update_flags(r)\<close>: the condition register is overwritten with one of the three
  flag constants, chosen from the value register \<open>r\<close> holds.
\<close>

definition update_flags :: "nat \<Rightarrow> machine \<Rightarrow> machine" where
  "update_flags r s =
     (if reg s r = 0 then s\<lparr>reg := (reg s)(R_COND := FL_ZRO)\<rparr>
      else if drop_bit 15 (reg s r) \<noteq> 0 then s\<lparr>reg := (reg s)(R_COND := FL_NEG)\<rparr>
      else s\<lparr>reg := (reg s)(R_COND := FL_POS)\<rparr>)"

section \<open>Character input and output\<close>

text \<open>
  \<^verbatim>\<open>getchar()\<close> returns the next byte of the input as a non-negative \<^verbatim>\<open>int\<close>, or
  \<^verbatim>\<open>EOF\<close> (-1) when the input is exhausted. \<^verbatim>\<open>check_key()\<close>, which the source defines
  through the console calls \<^verbatim>\<open>WaitForSingleObject\<close> and \<^verbatim>\<open>_kbhit\<close>, tells whether a
  keystroke is pending: here, whether the input still holds a byte. \<^verbatim>\<open>putc\<close> appends one
  byte to the output; \<^verbatim>\<open>fflush\<close> has no effect on the bytes written and is left out.
\<close>

definition getchar :: "machine \<Rightarrow> int \<times> machine" where
  "getchar s = (case stdin s of [] \<Rightarrow> (- 1, s) | c # cs \<Rightarrow> (uint c, s\<lparr>stdin := cs\<rparr>))"

definition check_key :: "machine \<Rightarrow> bool" where
  "check_key s = (stdin s \<noteq> [])"

definition putc :: "8 word \<Rightarrow> machine \<Rightarrow> machine" where
  "putc c s = s\<lparr>stdout := stdout s @ [c]\<rparr>"

definition print_string :: "string \<Rightarrow> machine \<Rightarrow> machine" where
  "print_string str s = s\<lparr>stdout := stdout s @ map of_char str\<rparr>"

section \<open>Memory access\<close>

text \<open>
  \<^verbatim>\<open>memory\<close> is declared with \<^verbatim>\<open>UINT16_MAX\<close> cells, so its valid indices are
  \<open>0 .. UINT16_MAX - 1\<close>. \<^verbatim>\<open>mem_write\<close> and \<^verbatim>\<open>mem_read\<close> index it with the 16-bit
  address they are given. \<open>poll_keyboard\<close> is the body of \<^verbatim>\<open>if (address == MR_KBSR)\<close> in
  \<^verbatim>\<open>mem_read\<close>; its accesses with the constant indices \<^verbatim>\<open>MR_KBSR\<close> and \<^verbatim>\<open>MR_KBDR\<close> are
  always inside the array.
\<close>

definition mem_write :: "16 word \<Rightarrow> 16 word \<Rightarrow> machine \<Rightarrow> machine result" where
  "mem_write address val s =
     (if unat address < UINT16_MAX
      then Inr (s\<lparr>memory := (memory s)(unat address := val)\<rparr>)
      else Inl (OutOfBounds, s))"

definition poll_keyboard :: "machine \<Rightarrow> machine" where
  "poll_keyboard s =
     (if check_key s
      then (let s1 = s\<lparr>memory := (memory s)(unat MR_KBSR := push_bit 15 1)\<rparr>;
                (c, s2) = getchar s1
            in s2\<lparr>memory := (memory s2)(unat MR_KBDR := word_of_int c)\<rparr>)
      else s\<lparr>memory := (memory s)(unat MR_KBSR := 0)\<rparr>)"

definition mem_read :: "16 word \<Rightarrow> machine \<Rightarrow> (16 word \<times> machine) result" where
  "mem_read address s =
     (let s1 = (if address = MR_KBSR then poll_keyboard s else s)
      in if unat address < UINT16_MAX
         then Inr (memory s1 (unat address), s1)
         else Inl (OutOfBounds, s1))"

section \<open>Image loader\<close>

text \<open>
  A file is the list of its bytes. \<^verbatim>\<open>fread(p, 2, count, file)\<close> copies the bytes of the
  file into the cells from \<open>p\<close> on, in the byte order of the host (low byte first: the
  source swaps afterwards "to little endian"), stops after \<open>count\<close> elements or at the
  end of the file, and returns the number of complete elements. A last single byte is
  copied into the low byte of the next cell and is not counted. The result is the count,
  the memory and the bytes left in the file.
\<close>

fun fread :: "nat \<Rightarrow> (nat \<Rightarrow> 16 word) \<Rightarrow> nat \<Rightarrow> 8 word list
    \<Rightarrow> nat \<times> (nat \<Rightarrow> 16 word) \<times> 8 word list" where
  "fread p m 0 bs = (0, m, bs)"
| "fread p m (Suc n) [] = (0, m, [])"
| "fread p m (Suc n) [b] = (0, m(p := (m p AND 0xFF00) OR ucast b), [])"
| "fread p m (Suc n) (b0 # b1 # bs) =
     (let (k, m', rest) = fread (p + 1) (m(p := ucast b0 OR push_bit 8 (ucast b1))) n bs
      in (Suc k, m', rest))"

text \<open>The loop \<^verbatim>\<open>while (read-- > 0) { *p = swap16(*p); ++p; }\<close>.\<close>

fun swap_loop :: "nat \<Rightarrow> nat \<Rightarrow> (nat \<Rightarrow> 16 word) \<Rightarrow> (nat \<Rightarrow> 16 word)" where
  "swap_loop 0 p m = m"
| "swap_loop (Suc n) p m = swap_loop n (p + 1) (m(p := swap16 (m p)))"

text \<open>
  \<^verbatim>\<open>read_image_file(file)\<close>. The local \<^verbatim>\<open>origin\<close> is not initialised, and the result of
  the first \<^verbatim>\<open>fread\<close> is not looked at: \<open>junk\<close> is what \<^verbatim>\<open>origin\<close> holds before the
  read. \<^verbatim>\<open>origin\<close> is a one-cell array for \<^verbatim>\<open>fread\<close>.
\<close>

definition read_image_file :: "16 word \<Rightarrow> 8 word list \<Rightarrow> machine \<Rightarrow> machine" where
  "read_image_file junk file s =
     (let (_, o', file1) = fread 0 (\<lambda>_. junk) 1 file;
          origin = swap16 (o' 0);
          max_read = UINT16_MAX - unat origin;
          p = unat origin;
          (read, m, _) = fread p (memory s) max_read file1
      in s\<lparr>memory := swap_loop read p m\<rparr>)"

text \<open>
  \<^verbatim>\<open>read_image(image_path)\<close>: \<^verbatim>\<open>fopen\<close> looks the path up in the file system, a partial
  map from paths to contents. The result is the returned \<^verbatim>\<open>int\<close> and the machine.
\<close>

definition read_image :: "(string \<rightharpoonup> 8 word list) \<Rightarrow> 16 word \<Rightarrow> string \<Rightarrow> machine
    \<Rightarrow> int \<times> machine" where
  "read_image fs junk image_path s =
     (case fs image_path of
        None \<Rightarrow> (0, s)
      | Some file \<Rightarrow> (1, read_image_file junk file s))"

section \<open>Instructions\<close>

text \<open>The three-bit register fields \<^verbatim>\<open>(instr >> k) & 0x7\<close>, as indices into \<^verbatim>\<open>reg\<close>.\<close>

definition reg_field :: "nat \<Rightarrow> 16 word \<Rightarrow> nat" where
  "reg_field k instr = unat (drop_bit k instr AND 0x7)"

definition op_add :: "16 word \<Rightarrow> machine \<Rightarrow> machine" where
  "op_add instr s =
     (let r0 = reg_field 9 instr; r1 = reg_field 6 instr;
          imm_flag = drop_bit 5 instr AND 0x1
      in if imm_flag \<noteq> 0
         then (let imm5 = sign_extend (instr AND 0x1F) 5
               in update_flags r0 (s\<lparr>reg := (reg s)(r0 := reg s r1 + imm5)\<rparr>))
         else (let r2 = reg_field 0 instr
               in update_flags r0 (s\<lparr>reg := (reg s)(r0 := reg s r1 + reg s r2)\<rparr>)))"

definition op_and :: "16 word \<Rightarrow> machine \<Rightarrow> machine" where
  "op_and instr s =
     (let r0 = reg_field 9 instr; r1 = reg_field 6 instr;
          imm_flag = drop_bit 5 instr AND 0x1
      in if imm_flag \<noteq> 0
         then (let imm5 = sign_extend (instr AND 0x1F) 5
               in update_flags r0 (s\<lparr>reg := (reg s)(r0 := reg s r1 AND imm5)\<rparr>))
         else (let r2 = reg_field 0 instr
               in update_flags r0 (s\<lparr>reg := (reg s)(r0 := reg s r1 AND reg s r2)\<rparr>)))"

definition op_not :: "16 word \<Rightarrow> machine \<Rightarrow> machine" where
  "op_not instr s =
     (let r0 = reg_field 9 instr; r1 = reg_field 6 instr
      in update_flags r0 (s\<lparr>reg := (reg s)(r0 := NOT (reg s r1))\<rparr>))"

definition op_br :: "16 word \<Rightarrow> machine \<Rightarrow> machine" where
  "op_br instr s =
     (let pc_offset = sign_extend (instr AND 0x1FF) 9;
          cond_flag = drop_bit 9 instr AND 0x7
      in if cond_flag AND reg s R_COND \<noteq> 0
         then s\<lparr>reg := (reg s)(R_PC := reg s R_PC + pc_offset)\<rparr>
         else s)"

definition op_jmp :: "16 word \<Rightarrow> machine \<Rightarrow> machine" where
  "op_jmp instr s =
     (let r1 = reg_field 6 instr
      in s\<lparr>reg := (reg s)(R_PC := reg s r1)\<rparr>)"

definition op_jsr :: "16 word \<Rightarrow> machine \<Rightarrow> machine" where
  "op_jsr instr s =
     (let long_flag = drop_bit 11 instr AND 1;
          s1 = s\<lparr>reg := (reg s)(R_R7 := reg s R_PC)\<rparr>
      in if long_flag \<noteq> 0
         then (let long_pc_offset = sign_extend (instr AND 0x7FF) 11
               in s1\<lparr>reg := (reg s1)(R_PC := reg s1 R_PC + long_pc_offset)\<rparr>)
         else (let r1 = reg_field 6 instr
               in s1\<lparr>reg := (reg s1)(R_PC := reg s1 r1)\<rparr>))"

definition op_ld :: "16 word \<Rightarrow> machine \<Rightarrow> machine result" where
  "op_ld instr s =
     (let r0 = reg_field 9 instr;
          pc_offset = sign_extend (instr AND 0x1FF) 9
      in case mem_read (reg s R_PC + pc_offset) s of
           Inl e \<Rightarrow> Inl e
         | Inr (v, s1) \<Rightarrow> Inr (update_flags r0 (s1\<lparr>reg := (reg s1)(r0 := v)\<rparr>)))"

definition op_ldi :: "16 word \<Rightarrow> machine \<Rightarrow> machine result" where
  "op_ldi instr s =
     (let r0 = reg_field 9 instr;
          pc_offset = sign_extend (instr AND 0x1FF) 9
      in case mem_read (reg s R_PC + pc_offset) s of
           Inl e \<Rightarrow> Inl e
         | Inr (a, s1) \<Rightarrow>
             (case mem_read a s1 of
                Inl e \<Rightarrow> Inl e
              | Inr (v, s2) \<Rightarrow> Inr (update_flags r0 (s2\<lparr>reg := (reg s2)(r0 := v)\<rparr>))))"

definition op_ldr :: "16 word \<Rightarrow> machine \<Rightarrow> machine result" where
  "op_ldr instr s =
     (let r0 = reg_field 9 instr; r1 = reg_field 6 instr;
          offset = sign_extend (instr AND 0x3F) 6
      in case mem_read (reg s r1 + offset) s of
           Inl e \<Rightarrow> Inl e
         | Inr (v, s1) \<Rightarrow> Inr (update_flags r0 (s1\<lparr>reg := (reg s1)(r0 := v)\<rparr>)))"

definition op_lea :: "16 word \<Rightarrow> machine \<Rightarrow> machine" where
  "op_lea instr s =
     (let r0 = reg_field 9 instr;
          pc_offset = sign_extend (instr AND 0x1FF) 9
      in update_flags r0 (s\<lparr>reg := (reg s)(r0 := reg s R_PC + pc_offset)\<rparr>))"

definition op_st :: "16 word \<Rightarrow> machine \<Rightarrow> machine result" where
  "op_st instr s =
     (let r0 = reg_field 9 instr;
          pc_offset = sign_extend (instr AND 0x1FF) 9
      in mem_write (reg s R_PC + pc_offset) (reg s r0) s)"

definition op_sti :: "16 word \<Rightarrow> machine \<Rightarrow> machine result" where
  "op_sti instr s =
     (let r0 = reg_field 9 instr;
          pc_offset = sign_extend (instr AND 0x1FF) 9
      in case mem_read (reg s R_PC + pc_offset) s of
           Inl e \<Rightarrow> Inl e
         | Inr (a, s1) \<Rightarrow> mem_write a (reg s1 r0) s1)"

definition op_str :: "16 word \<Rightarrow> machine \<Rightarrow> machine result" where
  "op_str instr s =
     (let r0 = reg_field 9 instr; r1 = reg_field 6 instr;
          offset = sign_extend (instr AND 0x3F) 6
      in mem_write (reg s r1 + offset) (reg s r0) s)"

section \<open>Trap routines\<close>

text \<open>
  The scan of \<^verbatim>\<open>TRAP_PUTS\<close>: \<^verbatim>\<open>uint16_t *c = memory + reg[R_R0]; while (*c) { putc((char)*c,
  stdout); ++c; }\<close>. The pointer is kept as its index into \<^verbatim>\<open>memory\<close>; it is not a
  16-bit address and does not wrap, so a scan that finds no zero word walks off the end of
  the array.
\<close>

function puts_loop :: "nat \<Rightarrow> machine \<Rightarrow> machine result" where
  "puts_loop c s =
     (if c < UINT16_MAX
      then (if memory s c \<noteq> 0
            then puts_loop (c + 1) (putc (ucast (memory s c)) s)
            else Inr s)
      else Inl (OutOfBounds, s))"
  by pat_completeness auto
termination
  by (relation "measure (\<lambda>(c, s). UINT16_MAX - c)") auto

text \<open>The scan of \<^verbatim>\<open>TRAP_PUTSP\<close>, two characters per word, low byte first.\<close>

function putsp_loop :: "nat \<Rightarrow> machine \<Rightarrow> machine result" where
  "putsp_loop c s =
     (if c < UINT16_MAX
      then (if memory s c \<noteq> 0
            then (let char1 = (ucast (memory s c AND 0xFF) :: 8 word);
                      s1 = putc char1 s;
                      char2 = (ucast (drop_bit 8 (memory s c)) :: 8 word);
                      s2 = (if char2 \<noteq> 0 then putc char2 s1 else s1)
                  in putsp_loop (c + 1) s2)
            else Inr s)
      else Inl (OutOfBounds, s))"
  by pat_completeness auto
termination
  by (relation "measure (\<lambda>(c, s). UINT16_MAX - c)") auto

text \<open>
  \<^verbatim>\<open>case OP_TRAP\<close>: \<^verbatim>\<open>R7\<close> is set first, then the inner switch on the low byte of the
  instruction. Besides \<^verbatim>\<open>default\<close>, the inner switch carries the labels \<^verbatim>\<open>OP_RES\<close> and
  \<^verbatim>\<open>OP_RTI\<close>, so the trap vectors 13 and 8 share \<^verbatim>\<open>abort()\<close> with every other
  unknown vector. In \<^verbatim>\<open>TRAP_IN\<close> the character goes through a \<^verbatim>\<open>char\<close>, which is signed
  on the platforms the source builds for. The call of \<^verbatim>\<open>restore_input_buffering()\<close> that
  follows the inner switch changes the console mode only.
\<close>

definition op_trap :: "16 word \<Rightarrow> machine \<Rightarrow> machine result" where
  "op_trap instr s0 =
     (let s = s0\<lparr>reg := (reg s0)(R_R7 := reg s0 R_PC)\<rparr>;
          vect = instr AND 0xFF
      in if vect = TRAP_GETC
         then (let (c, s1) = getchar s
               in Inr (update_flags R_R0 (s1\<lparr>reg := (reg s1)(R_R0 := word_of_int c)\<rparr>)))
         else if vect = TRAP_OUT
         then Inr (putc (ucast (reg s R_R0)) s)
         else if vect = TRAP_PUTS
         then puts_loop (unat (reg s R_R0)) s
         else if vect = TRAP_IN
         then (let s1 = print_string ''Enter a character: '' s;
                   (i, s2) = getchar s1;
                   c = (word_of_int i :: 8 word);
                   s3 = putc c s2
               in Inr (update_flags R_R0 (s3\<lparr>reg := (reg s3)(R_R0 := scast c)\<rparr>)))
         else if vect = TRAP_PUTSP
         then putsp_loop (unat (reg s R_R0)) s
         else if vect = TRAP_HALT
         then Inr ((print_string (''HALT'' @ [CHR 0x0A]) s)\<lparr>running := False\<rparr>)
         else if vect = OP_RES \<or> vect = OP_RTI
         then Inl (Abort, s)
         else Inl (Abort, s))"

section \<open>The fetch-decode-execute loop\<close>

text \<open>
  The outer \<^verbatim>\<open>switch (op)\<close> of \<^verbatim>\<open>main\<close>, in the order of its cases. It has no case for
  \<^verbatim>\<open>OP_RTI\<close> or \<^verbatim>\<open>OP_RES\<close> and no \<^verbatim>\<open>default\<close>: for these two values of \<open>op\<close> no
  case is taken and control leaves the switch.
\<close>

definition execute :: "16 word \<Rightarrow> machine \<Rightarrow> machine result" where
  "execute instr s =
     (let op = drop_bit 12 instr
      in if op = OP_ADD then Inr (op_add instr s)
         else if op = OP_AND then Inr (op_and instr s)
         else if op = OP_NOT then Inr (op_not instr s)
         else if op = OP_BR then Inr (op_br instr s)
         else if op = OP_JMP then Inr (op_jmp instr s)
         else if op = OP_JSR then Inr (op_jsr instr s)
         else if op = OP_LD then op_ld instr s
         else if op = OP_LDI then op_ldi instr s
         else if op = OP_LDR then op_ldr instr s
         else if op = OP_LEA then Inr (op_lea instr s)
         else if op = OP_ST then op_st instr s
         else if op = OP_STI then op_sti instr s
         else if op = OP_STR then op_str instr s
         else if op = OP_TRAP then op_trap instr s
         else Inr s)"

text \<open>\<^verbatim>\<open>uint16_t instr = mem_read(reg[R_PC]++)\<close>: the fetch, with the post-increment.\<close>

definition fetch :: "machine \<Rightarrow> (16 word \<times> machine) result" where
  "fetch s =
     (let pc = reg s R_PC
      in mem_read pc (s\<lparr>reg := (reg s)(R_PC := pc + 1)\<rparr>))"

text \<open>One pass through the body of \<^verbatim>\<open>while (running)\<close>.\<close>

definition step :: "machine \<Rightarrow> machine result" where
  "step s =
     (case fetch s of
        Inl e \<Rightarrow> Inl e
      | Inr (instr, s1) \<Rightarrow> execute instr s1)"

text \<open>
  \<^verbatim>\<open>while (running) { ... }\<close>, cut after \<open>n\<close> passes: the state after \<open>n\<close> passes, or the
  state in which the loop has ended before, or the fault that ended the process.
\<close>

fun loop :: "nat \<Rightarrow> machine \<Rightarrow> machine result" where
  "loop 0 s = Inr s"
| "loop (Suc n) s =
     (if running s
      then (case step s of Inl e \<Rightarrow> Inl e | Inr s' \<Rightarrow> loop n s')
      else Inr s)"

text \<open>
  The setup of \<^verbatim>\<open>main\<close> between the loading of the images and the loop:
  \<^verbatim>\<open>reg[R_COND] = FL_ZRO; reg[R_PC] = PC_START; int running = 1;\<close>.
\<close>

abbreviation (input) PC_START :: "16 word" where "PC_START \<equiv> 0x3000"

definition main_setup :: "machine \<Rightarrow> machine" where
  "main_setup s = s\<lparr>reg := (reg s)(R_COND := FL_ZRO, R_PC := PC_START), running := True\<rparr>"

text \<open>
  The state at program start: the globals \<^verbatim>\<open>reg\<close> and \<^verbatim>\<open>memory\<close> are zero-initialised;
  the input is what the user will type.
\<close>

definition boot :: "8 word list \<Rightarrow> machine" where
  "boot keys = \<lparr>reg = (\<lambda>_. 0), memory = (\<lambda>_. 0), stdin = keys, stdout = [], running = True\<rparr>"

declare puts_loop.simps [simp del]
declare putsp_loop.simps [simp del]

section \<open>Facts about 16-bit words\<close>

lemma drop_bit_and_1: "(drop_bit k x AND 1 \<noteq> 0) = bit (x::16 word) k"
  by (simp add: bit_iff_odd_drop_bit and_one_eq even_iff_mod_2_eq_zero)

lemma high_bits_clear: "(x::16 word) < 2 ^ n \<Longrightarrow> n \<le> j \<Longrightarrow> \<not> bit x j"
proof -
  assume a: "x < 2 ^ n" "n \<le> j"
  have "take_bit n x = x" using a(1) by (simp add: take_bit_eq_mask less_mask_eq)
  then have "bit x j = bit (take_bit n x) j" by simp
  also have "\<dots> = False" using a(2) by (simp add: bit_take_bit_iff)
  finally show ?thesis by simp
qed

lemma bit_push_bit_ffff: "i < 16 \<Longrightarrow> bit (push_bit n (65535 :: 16 word)) i = (n \<le> i)"
proof -
  assume i: "i < 16"
  have e: "(65535 :: 16 word) = - 1" by simp
  have "bit (push_bit n (- 1 :: 16 word)) i = (n \<le> i)" using i by (auto simp add: bit_simps)
  then show ?thesis by (simp only: e)
qed

lemma or_push_bit_ffff: "(x::16 word) < 2 ^ n \<Longrightarrow> x OR push_bit n 65535 = x - 2 ^ n"
proof -
  assume x: "x < 2 ^ n"
  have e: "(65535 :: 16 word) = - 1" by simp
  have p: "push_bit n (65535 :: 16 word) = - (2 ^ n)"
    by (simp only: e push_bit_eq_mult) simp
  have "x AND push_bit n 65535 = 0"
  proof (rule bit_word_eqI)
    fix i assume "i < LENGTH(16)"
    then have i: "i < 16" by simp
    show "bit (x AND push_bit n 65535) i = bit (0 :: 16 word) i"
      using high_bits_clear [OF x, of i] by (simp only: bit_and_iff bit_push_bit_ffff [OF i]) auto
  qed
  then have "x + push_bit n 65535 = x OR push_bit n 65535"
    by (rule disjunctive_add_eq_or)
  then show ?thesis by (simp only: p) simp
qed

lemma sint_minus_power: "n < 16 \<Longrightarrow> (x::16 word) < 2 ^ n \<Longrightarrow> sint (x - 2 ^ n) = uint x - 2 ^ n"
proof -
  assume n: "n < 16" and x: "x < 2 ^ n"
  have u: "uint x < 2 ^ n" using x n by (simp add: word_2p_lem word_size)
  have u0: "0 \<le> uint x" by simp
  have "(2::int) ^ n \<le> 2 ^ 15" using n by (intro power_increasing) simp_all
  then have p: "(2::int) ^ n \<le> 32768" by simp
  define k where "k = uint x - 2 ^ n"
  have b: "- 32768 \<le> k" "k < 32768"
    unfolding k_def using u u0 p by linarith+
  have w: "x - 2 ^ n = (word_of_int k :: 16 word)" by (simp add: k_def)
  have "sint (word_of_int k :: 16 word) = (k + 32768) mod 65536 - 32768"
    by (simp add: int_word_sint)
  also have "\<dots> = k" using b by simp
  finally show ?thesis by (simp only: w k_def)
qed

lemma unat_minus_1_16: "unat (- 1 :: 16 word) = 65535"
proof -
  have "(- 1 :: 16 word) = 65535" by simp
  then show ?thesis by (simp only: unat_numeral) simp
qed

section \<open>Sign extension\<close>

text \<open>
  C5. For each width \<open>n\<close> the source passes (5, 6, 9, 11) and each \<open>n\<close>-bit field \<open>x\<close>:
  when bit \<open>n - 1\<close> of \<open>x\<close> is set, \<open>sign_extend x n\<close> is \<open>x\<close> with every bit from \<open>n\<close> up
  set, and read as a signed 16-bit number it is the value of the \<open>n\<close>-bit field in two's
  complement, \<open>uint x - 2 ^ n\<close>; when bit \<open>n - 1\<close> is clear, \<open>sign_extend x n\<close> is \<open>x\<close>, and
  all its bits from \<open>n\<close> up are zero.
\<close>

theorem sign_extend_two_complement:
  assumes n: "n \<in> {5, 6, 9, 11}" and x: "x < 2 ^ n"
  shows "(bit x (n - 1) \<longrightarrow>
            (\<forall>i<16. bit (sign_extend x n) i = (bit x i \<or> n \<le> i)) \<and>
            sint (sign_extend x n) = uint x - 2 ^ n) \<and>
         (\<not> bit x (n - 1) \<longrightarrow>
            sign_extend x n = x \<and> (\<forall>i. n \<le> i \<longrightarrow> \<not> bit (sign_extend x n) i))"
proof (intro conjI impI)
  assume b: "bit x (n - 1)"
  then have e: "sign_extend x n = x OR push_bit n 65535"
    by (simp add: sign_extend_def drop_bit_and_1)
  show "\<forall>i<16. bit (sign_extend x n) i = (bit x i \<or> n \<le> i)"
    by (simp add: e bit_or_iff bit_push_bit_ffff)
  from n have "n < 16" by auto
  then show "sint (sign_extend x n) = uint x - 2 ^ n"
    using x by (simp only: e or_push_bit_ffff sint_minus_power)
next
  assume b: "\<not> bit x (n - 1)"
  then show e: "sign_extend x n = x"
    by (simp add: sign_extend_def drop_bit_and_1)
  show "\<forall>i. n \<le> i \<longrightarrow> \<not> bit (sign_extend x n) i"
    using x by (simp add: e high_bits_clear)
qed

text \<open>
  The theorem at the 5-bit field \<open>0x1F\<close> (top bit set: the result is \<open>0xFFFF\<close>, that is
  -1) and at the 11-bit field \<open>0x3FF\<close> (top bit clear: unchanged).
\<close>

theorem sign_extend_two_complement_witness:
  "(5::nat) \<in> {5, 6, 9, 11} \<and> (0x1F :: 16 word) < 2 ^ 5 \<and> bit (0x1F :: 16 word) (5 - 1) \<and>
   sint (sign_extend 0x1F 5) = - 1 \<and>
   (11::nat) \<in> {5, 6, 9, 11} \<and> (0x3FF :: 16 word) < 2 ^ 11 \<and> \<not> bit (0x3FF :: 16 word) (11 - 1) \<and>
   sign_extend 0x3FF 11 = 0x3FF"
  using sign_extend_two_complement [of 5 "0x1F"] sign_extend_two_complement [of 11 "0x3FF"]
  by simp

section \<open>Undefined opcodes\<close>

lemma execute_reserved:
  "drop_bit 12 instr = OP_RES \<or> drop_bit 12 instr = OP_RTI \<Longrightarrow> execute instr s = Inr s"
  by (auto simp add: execute_def)

text \<open>
  C1. The claim asks for a fatal fault on the opcodes \<^verbatim>\<open>OP_RES\<close> (13) and \<^verbatim>\<open>OP_RTI\<close> (8).
  In the source the labels \<^verbatim>\<open>case OP_RES: case OP_RTI: default: abort()\<close> sit in the inner
  switch on the trap vector, not in the outer switch on the opcode. With the instruction
  \<open>0xD000\<close> (or \<open>0x8000\<close>) at \<open>0x3000\<close>, one pass of the loop only advances the program
  counter and leaves \<open>running\<close> set; with \<^verbatim>\<open>TRAP HALT\<close> behind it, two passes end the
  loop normally with the halt notice as the whole output.
\<close>

theorem reserved_opcode_not_faulting:
  "step \<lparr>reg = (\<lambda>_. 0)(R_COND := FL_ZRO, R_PC := 0x3000),
         memory = (\<lambda>_. 0)(0x3000 := 0xD000, 0x3001 := 0xF025),
         stdin = [], stdout = [], running = True\<rparr>
   = Inr \<lparr>reg = (\<lambda>_. 0)(R_COND := FL_ZRO, R_PC := 0x3001),
          memory = (\<lambda>_. 0)(0x3000 := 0xD000, 0x3001 := 0xF025),
          stdin = [], stdout = [], running = True\<rparr> \<and>
   step \<lparr>reg = (\<lambda>_. 0)(R_COND := FL_ZRO, R_PC := 0x3000),
         memory = (\<lambda>_. 0)(0x3000 := 0x8000, 0x3001 := 0xF025),
         stdin = [], stdout = [], running = True\<rparr>
   = Inr \<lparr>reg = (\<lambda>_. 0)(R_COND := FL_ZRO, R_PC := 0x3001),
          memory = (\<lambda>_. 0)(0x3000 := 0x8000, 0x3001 := 0xF025),
          stdin = [], stdout = [], running = True\<rparr> \<and>
   loop (Suc (Suc 0))
        \<lparr>reg = (\<lambda>_. 0)(R_COND := FL_ZRO, R_PC := 0x3000),
         memory = (\<lambda>_. 0)(0x3000 := 0xD000, 0x3001 := 0xF025),
         stdin = [], stdout = [], running = True\<rparr>
   = Inr \<lparr>reg = (\<lambda>_. 0)(R_COND := FL_ZRO, R_PC := 0x3002, R_R7 := 0x3002),
          memory = (\<lambda>_. 0)(0x3000 := 0xD000, 0x3001 := 0xF025),
          stdin = [], stdout = map of_char (''HALT'' @ [CHR 0x0A]), running = False\<rparr>"
  by (simp add: step_def fetch_def mem_read_def execute_def op_trap_def print_string_def)

section \<open>Bounds of the memory array\<close>

lemma mem_read_last_address: "mem_read 0xFFFF s = Inl (OutOfBounds, s)"
  by (simp add: mem_read_def)

lemma mem_write_last_address: "mem_write 0xFFFF v s = Inl (OutOfBounds, s)"
  by (simp add: mem_write_def)

lemma mem_read_in_bounds:
  "a \<noteq> 0xFFFF \<Longrightarrow> \<exists>v s'. mem_read a s = Inr (v, s')"
proof -
  assume a: "a \<noteq> 0xFFFF"
  have "unat a < 2 ^ LENGTH(16)" by (rule unsigned_less)
  moreover have "unat a \<noteq> 65535"
  proof
    assume "unat a = 65535"
    then have "unat a = unat (0xFFFF :: 16 word)" by simp
    then show False using a by (simp only: word_unat_eq_iff [symmetric])
  qed
  ultimately have "unat a < 65535" by simp
  then show ?thesis by (simp add: mem_read_def Let_def)
qed

text \<open>
  C2. The claim takes \<^verbatim>\<open>memory\<close> to have 65536 cells, so that every 16-bit address is a
  valid index. The source declares \<^verbatim>\<open>uint16_t memory[UINT16_MAX]\<close>, 65535 cells with the
  indices 0 to 65534, while \<^verbatim>\<open>mem_read\<close> and \<^verbatim>\<open>mem_write\<close> index it with any
  \<^verbatim>\<open>uint16_t\<close>: at the address \<open>0xFFFF\<close> both go past the end of the array. A program
  reaches that access in two instructions: \<^verbatim>\<open>NOT R0, R0\<close> (\<open>0x903F\<close>) makes \<open>R0 = 0xFFFF\<close>
  and \<^verbatim>\<open>LDR R1, R0, #0\<close> (\<open>0x6200\<close>) reads through it.
\<close>

theorem memory_last_address_out_of_bounds:
  "mem_read 0xFFFF (boot []) = Inl (OutOfBounds, boot []) \<and>
   mem_write 0xFFFF 0x1234 (boot []) = Inl (OutOfBounds, boot []) \<and>
   loop (Suc (Suc 0))
        \<lparr>reg = (\<lambda>_. 0)(R_COND := FL_ZRO, R_PC := 0x3000),
         memory = (\<lambda>_. 0)(0x3000 := 0x903F, 0x3001 := 0x6200),
         stdin = [], stdout = [], running = True\<rparr>
   = Inl (OutOfBounds,
          \<lparr>reg = (\<lambda>_. 0)(R_R0 := 0xFFFF, R_COND := FL_NEG, R_PC := 0x3002),
           memory = (\<lambda>_. 0)(0x3000 := 0x903F, 0x3001 := 0x6200),
           stdin = [], stdout = [], running = True\<rparr>)"
proof -
  have e: "(0xFFFF :: 16 word) = - 1" by simp
  show ?thesis
    by (simp add: step_def fetch_def mem_read_def mem_write_def execute_def op_not_def
        op_ldr_def reg_field_def update_flags_def sign_extend_def unat_minus_1_16 e)
qed

section \<open>Image loader\<close>

lemma fread_unfold:
  "0 < n \<Longrightarrow> fread p m n (b0 # b1 # bs) =
     (let (k, m', rest) = fread (p + 1) (m(p := ucast b0 OR push_bit 8 (ucast b1))) (n - 1) bs
      in (Suc k, m', rest))"
  "0 < n \<Longrightarrow> fread p m n [b] = (0, m(p := (m p AND 0xFF00) OR ucast b), [])"
  "fread p m n [] = (0, m, [])"
  by (cases n; simp)+

text \<open>
  C3, as stated, fails on the code: \<^verbatim>\<open>read_image\<close> returns 1 for a file of three bytes
  (an origin and half a word), for a file of one byte (half an origin) and for an empty
  file. \<^verbatim>\<open>read_image_file\<close> never looks at what \<^verbatim>\<open>fread\<close> returns for the origin and uses
  the count of the second \<^verbatim>\<open>fread\<close> only to bound the byte swap.
\<close>

theorem read_image_truncated_counterexample:
  "fst (read_image (Map.empty(''image.obj'' \<mapsto> [0x30, 0x00, 0x12])) 0 ''image.obj'' (boot [])) = 1 \<and>
   fst (read_image (Map.empty(''image.obj'' \<mapsto> [0x30])) 0 ''image.obj'' (boot [])) = 1 \<and>
   fst (read_image (Map.empty(''image.obj'' \<mapsto> [])) 0 ''image.obj'' (boot [])) = 1"
  by (simp add: read_image_def)

text \<open>
  What the loader does with the file of five bytes \<open>30 00 12 34 56\<close>: the complete word
  is stored at the origin in host order, the odd byte lands unswapped in the low byte of
  the next cell, and the call reports success.
\<close>

lemma read_image_truncated_example:
  "read_image (Map.empty(''image.obj'' \<mapsto> [0x30, 0x00, 0x12, 0x34, 0x56])) 0 ''image.obj'' (boot [])
   = (1, (boot [])\<lparr>memory := (\<lambda>_. 0)(0x3001 := 0x56, 0x3000 := 0x1234)\<rparr>)"
proof -
  have e: "(3412532 :: 16 word) = 0x1234" by simp
  show ?thesis
    by (simp add: read_image_def read_image_file_def swap16_def boot_def fread_unfold e)
qed

text \<open>
  C3, amended. \<^verbatim>\<open>read_image\<close> fails (returns 0, leaving the machine as it was) exactly
  when the file cannot be opened; for every file that opens, whatever its length, it
  returns 1.
\<close>

theorem read_image_fails_iff_not_opened:
  "(fst (read_image fs junk image_path s) = 0) = (fs image_path = None) \<and>
   (fst (read_image fs junk image_path s) = 1) = (fs image_path \<noteq> None) \<and>
   (fs image_path = None) = (read_image fs junk image_path s = (0, s))"
  by (auto simp add: read_image_def split: option.splits)

section \<open>Fetch\<close>

lemma poll_keyboard_reg: "reg (poll_keyboard s) = reg s"
  by (simp add: poll_keyboard_def getchar_def Let_def split: list.splits)

lemma mem_read_reg: "mem_read a s = Inr (v, s1) \<Longrightarrow> reg s1 = reg s"
  by (auto simp add: mem_read_def Let_def poll_keyboard_reg split: if_splits)

lemma mem_read_fault_reg: "mem_read a s = Inl (f, s1) \<Longrightarrow> reg s1 = reg s"
  by (auto simp add: mem_read_def Let_def poll_keyboard_reg split: if_splits)

lemma fetch_reg: "fetch s = Inr (instr, s1) \<Longrightarrow> reg s1 = (reg s)(R_PC := reg s R_PC + 1)"
  by (auto simp add: fetch_def Let_def dest: mem_read_reg)

section \<open>Subroutine calls\<close>

lemma reg_op_jsr_r7: "reg (op_jsr instr s) R_R7 = reg s R_PC"
  by (simp add: op_jsr_def Let_def)

text \<open>
  C6. Whenever the loop fetches at address \<open>reg s R_PC\<close> an instruction with the opcode
  \<^verbatim>\<open>OP_JSR\<close> (both forms, \<^verbatim>\<open>JSR\<close> and \<^verbatim>\<open>JSRR\<close>, share it), the pass ends normally and
  leaves in \<open>R7\<close> the address of the instruction plus one, in 16-bit arithmetic, whatever
  bit 11, the offset and the base register are.
\<close>

theorem jsr_links_r7:
  assumes "fetch s = Inr (instr, s1)" and "drop_bit 12 instr = OP_JSR"
  shows "\<exists>s'. step s = Inr s' \<and> reg s' R_R7 = reg s R_PC + 1"
proof -
  have "step s = Inr (op_jsr instr s1)"
    using assms by (simp add: step_def execute_def)
  moreover have "reg (op_jsr instr s1) R_R7 = reg s R_PC + 1"
    using fetch_reg [OF assms(1)] by (simp add: reg_op_jsr_r7)
  ultimately show ?thesis by simp
qed

text \<open>
  The theorem at \<^verbatim>\<open>JSRR R2\<close> (\<open>0x4080\<close>) fetched at \<open>0x3000\<close>: \<open>R7\<close> becomes \<open>0x3001\<close>.
\<close>

theorem jsr_links_r7_witness:
  "fetch \<lparr>reg = (\<lambda>_. 0)(R_R2 := 0x4000, R_PC := 0x3000),
          memory = (\<lambda>_. 0)(0x3000 := 0x4080),
          stdin = [], stdout = [], running = True\<rparr>
     = Inr (0x4080,
            \<lparr>reg = (\<lambda>_. 0)(R_R2 := 0x4000, R_PC := 0x3001),
             memory = (\<lambda>_. 0)(0x3000 := 0x4080),
             stdin = [], stdout = [], running = True\<rparr>) \<and>
   drop_bit 12 (0x4080 :: 16 word) = OP_JSR \<and>
   (\<exists>s'. step \<lparr>reg = (\<lambda>_. 0)(R_R2 := 0x4000, R_PC := 0x3000),
                 memory = (\<lambda>_. 0)(0x3000 := 0x4080),
                 stdin = [], stdout = [], running = True\<rparr> = Inr s' \<and>
         reg s' R_R7 = 0x3001)"
proof -
  let ?s = "\<lparr>reg = (\<lambda>_. 0)(R_R2 := 0x4000, R_PC := 0x3000),
            memory = (\<lambda>_. 0)(0x3000 := 0x4080),
            stdin = [], stdout = [], running = True\<rparr>"
  let ?s1 = "\<lparr>reg = (\<lambda>_. 0)(R_R2 := 0x4000, R_PC := 0x3001),
             memory = (\<lambda>_. 0)(0x3000 := 0x4080),
             stdin = [], stdout = [], running = True\<rparr>"
  have f: "fetch ?s = Inr (0x4080, ?s1)" by (simp add: fetch_def mem_read_def)
  have d: "drop_bit 12 (0x4080 :: 16 word) = OP_JSR" by simp
  from jsr_links_r7 [OF f d] f d show ?thesis by simp
qed

section \<open>Undefined trap vectors\<close>

text \<open>
  C9. When the instruction fetched is a \<^verbatim>\<open>TRAP\<close> whose vector is none of the six
  routines, the pass ends in \<^verbatim>\<open>abort()\<close>, and the state at that moment already has the
  incremented program counter in \<open>R7\<close> (and in \<open>PC\<close>): if \<open>R7\<close> held another value before
  the instruction, the state at the fault differs from the state before it.
\<close>

theorem trap_fault_after_r7:
  assumes "fetch s = Inr (instr, s1)" and "drop_bit 12 instr = OP_TRAP"
    and "instr AND 0xFF \<notin> {TRAP_GETC, TRAP_OUT, TRAP_PUTS, TRAP_IN, TRAP_PUTSP, TRAP_HALT}"
  shows "\<exists>sf. step s = Inl (Abort, sf) \<and>
              reg sf R_PC = reg s R_PC + 1 \<and>
              reg sf R_R7 = reg s R_PC + 1 \<and>
              (reg s R_R7 \<noteq> reg s R_PC + 1 \<longrightarrow> reg sf R_R7 \<noteq> reg s R_R7 \<and> sf \<noteq> s)"
proof -
  let ?sf = "s1\<lparr>reg := (reg s1)(R_R7 := reg s1 R_PC)\<rparr>"
  have "step s = Inl (Abort, ?sf)"
    using assms by (simp add: step_def execute_def op_trap_def Let_def)
  moreover have r: "reg ?sf R_PC = reg s R_PC + 1" "reg ?sf R_R7 = reg s R_PC + 1"
    using fetch_reg [OF assms(1)] by simp_all
  moreover have "reg s R_R7 \<noteq> reg s R_PC + 1 \<longrightarrow> reg ?sf R_R7 \<noteq> reg s R_R7 \<and> ?sf \<noteq> s"
  proof (intro impI conjI)
    assume n: "reg s R_R7 \<noteq> reg s R_PC + 1"
    then show d: "reg ?sf R_R7 \<noteq> reg s R_R7" by (simp only: r(2) not_sym)
    show "?sf \<noteq> s"
    proof
      assume "?sf = s"
      then have "reg ?sf R_R7 = reg s R_R7" by (rule arg_cong)
      with d show False by (rule notE)
    qed
  qed
  ultimately show ?thesis by blast
qed

text \<open>
  The theorem at \<^verbatim>\<open>TRAP 0xFF\<close> (\<open>0xF0FF\<close>) fetched at \<open>0x3000\<close> with \<open>R7 = 0\<close>: the fault
  state has \<open>R7 = 0x3001\<close>.
\<close>

theorem trap_fault_after_r7_witness:
  "fetch \<lparr>reg = (\<lambda>_. 0)(R_PC := 0x3000), memory = (\<lambda>_. 0)(0x3000 := 0xF0FF),
          stdin = [], stdout = [], running = True\<rparr>
     = Inr (0xF0FF,
            \<lparr>reg = (\<lambda>_. 0)(R_PC := 0x3001), memory = (\<lambda>_. 0)(0x3000 := 0xF0FF),
             stdin = [], stdout = [], running = True\<rparr>) \<and>
   drop_bit 12 (0xF0FF :: 16 word) = OP_TRAP \<and>
   (0xF0FF :: 16 word) AND 0xFF \<notin> {TRAP_GETC, TRAP_OUT, TRAP_PUTS, TRAP_IN, TRAP_PUTSP, TRAP_HALT} \<and>
   (\<exists>sf. step \<lparr>reg = (\<lambda>_. 0)(R_PC := 0x3000), memory = (\<lambda>_. 0)(0x3000 := 0xF0FF),
                 stdin = [], stdout = [], running = True\<rparr> = Inl (Abort, sf) \<and>
         reg sf R_R7 = 0x3001 \<and>
         sf \<noteq> \<lparr>reg = (\<lambda>_. 0)(R_PC := 0x3000), memory = (\<lambda>_. 0)(0x3000 := 0xF0FF),
                 stdin = [], stdout = [], running = True\<rparr>)"
proof -
  let ?s = "\<lparr>reg = (\<lambda>_. 0)(R_PC := 0x3000), memory = (\<lambda>_. 0)(0x3000 := 0xF0FF),
            stdin = [], stdout = [], running = True\<rparr>"
  let ?s1 = "\<lparr>reg = (\<lambda>_. 0)(R_PC := 0x3001), memory = (\<lambda>_. 0)(0x3000 := 0xF0FF),
             stdin = [], stdout = [], running = True\<rparr>"
  have f: "fetch ?s = Inr (0xF0FF, ?s1)" by (simp add: fetch_def mem_read_def)
  have d: "drop_bit 12 (0xF0FF :: 16 word) = OP_TRAP" by simp
  have v: "(0xF0FF :: 16 word) AND 0xFF \<notin> {TRAP_GETC, TRAP_OUT, TRAP_PUTS, TRAP_IN, TRAP_PUTSP, TRAP_HALT}"
    by simp
  have r: "reg ?s R_R7 \<noteq> reg ?s R_PC + 1" by simp
  from trap_fault_after_r7 [OF f d v] obtain sf where
    sf: "step ?s = Inl (Abort, sf)" "reg sf R_R7 = reg ?s R_PC + 1"
      "reg ?s R_R7 \<noteq> reg ?s R_PC + 1 \<longrightarrow> reg sf R_R7 \<noteq> reg ?s R_R7 \<and> sf \<noteq> ?s"
    by blast
  from sf(3) r have "sf \<noteq> ?s" by blast
  moreover from sf(2) have "reg sf R_R7 = 0x3001" by simp
  ultimately show ?thesis using f d v sf(1) by blast
qed

section \<open>Memory-mapped keyboard\<close>

lemma mem_read_kbsr_no_key:
  "stdin s = [] \<Longrightarrow> mem_read MR_KBSR s = Inr (0, s\<lparr>memory := (memory s)(unat MR_KBSR := 0)\<rparr>)"
  by (simp add: mem_read_def poll_keyboard_def check_key_def)

lemma mem_read_kbsr_key:
  "stdin s = c # cs \<Longrightarrow>
   mem_read MR_KBSR s =
     Inr (0x8000, s\<lparr>memory := (memory s)(unat MR_KBSR := 0x8000, unat MR_KBDR := ucast c),
                   stdin := cs\<rparr>)"
  by (simp add: mem_read_def poll_keyboard_def check_key_def getchar_def)

lemma mem_read_other:
  "a \<noteq> MR_KBSR \<Longrightarrow>
   mem_read a s = (if unat a < UINT16_MAX then Inr (memory s (unat a), s) else Inl (OutOfBounds, s))"
  by (simp add: mem_read_def)

text \<open>
  C7. A read of \<^verbatim>\<open>MR_KBSR\<close> (\<open>0xFE00\<close>) with no keystroke pending returns 0 (and stores 0
  in the status cell). With a keystroke \<open>c\<close> pending it returns a word with bit 15 set and
  stores the code of \<open>c\<close> in the cell \<^verbatim>\<open>MR_KBDR\<close> (\<open>0xFE02\<close>), so that a read of
  \<^verbatim>\<open>MR_KBDR\<close> right after returns that code. A read of any other address is the plain
  array access \<^verbatim>\<open>memory[address]\<close> and leaves the whole state, pending keystrokes
  included, as it was; so is every write, which changes the addressed cell only.
\<close>

theorem keyboard_status_read_polls:
  "(stdin s = [] \<longrightarrow>
      mem_read MR_KBSR s = Inr (0, s\<lparr>memory := (memory s)(unat MR_KBSR := 0)\<rparr>)) \<and>
   (\<forall>c cs. stdin s = c # cs \<longrightarrow>
      (\<exists>w s'. mem_read MR_KBSR s = Inr (w, s') \<and> bit w 15 \<and>
              memory s' (unat MR_KBDR) = ucast c \<and>
              mem_read MR_KBDR s' = Inr (ucast c, s'))) \<and>
   (a \<noteq> MR_KBSR \<longrightarrow>
      mem_read a s =
        (if unat a < UINT16_MAX then Inr (memory s (unat a), s) else Inl (OutOfBounds, s))) \<and>
   mem_write a v s =
     (if unat a < UINT16_MAX then Inr (s\<lparr>memory := (memory s)(unat a := v)\<rparr>)
      else Inl (OutOfBounds, s))"
proof (intro conjI allI impI)
  assume "stdin s = []"
  then show "mem_read MR_KBSR s = Inr (0, s\<lparr>memory := (memory s)(unat MR_KBSR := 0)\<rparr>)"
    by (rule mem_read_kbsr_no_key)
next
  fix c cs assume k: "stdin s = c # cs"
  let ?s' = "s\<lparr>memory := (memory s)(unat MR_KBSR := 0x8000, unat MR_KBDR := ucast c), stdin := cs\<rparr>"
  have "mem_read MR_KBSR s = Inr (0x8000, ?s')" using k by (rule mem_read_kbsr_key)
  moreover have "bit (0x8000 :: 16 word) 15" by simp
  moreover have "memory ?s' (unat MR_KBDR) = ucast c" by simp
  moreover have "mem_read MR_KBDR ?s' = Inr (ucast c, ?s')" by (simp add: mem_read_other)
  ultimately show "\<exists>w s'. mem_read MR_KBSR s = Inr (w, s') \<and> bit w 15 \<and>
              memory s' (unat MR_KBDR) = ucast c \<and>
              mem_read MR_KBDR s' = Inr (ucast c, s')" by blast
next
  assume "a \<noteq> MR_KBSR"
  then show "mem_read a s =
        (if unat a < UINT16_MAX then Inr (memory s (unat a), s) else Inl (OutOfBounds, s))"
    by (rule mem_read_other)
next
  show "mem_write a v s =
     (if unat a < UINT16_MAX then Inr (s\<lparr>memory := (memory s)(unat a := v)\<rparr>)
      else Inl (OutOfBounds, s))"
    by (simp add: mem_write_def)
qed

text \<open>
  The theorem with no key pending, with the key \<open>A\<close> (\<open>0x41\<close>) pending, and at the
  ordinary address \<open>0x3000\<close>.
\<close>

theorem keyboard_status_read_polls_witness:
  "stdin (boot []) = [] \<and>
   mem_read MR_KBSR (boot []) = Inr (0, boot []) \<and>
   stdin (boot [0x41]) = [0x41] \<and>
   (\<exists>w s'. mem_read MR_KBSR (boot [0x41]) = Inr (w, s') \<and> bit w 15 \<and>
           mem_read MR_KBDR s' = Inr (0x41, s')) \<and>
   (0x3000 :: 16 word) \<noteq> MR_KBSR \<and>
   mem_read 0x3000 (boot [0x41]) = Inr (0, boot [0x41])"
proof -
  have a: "stdin (boot []) = []" and b: "stdin (boot [0x41]) = [0x41]"
    by (simp_all add: boot_def)
  have e: "(boot [])\<lparr>memory := (memory (boot []))(unat MR_KBSR := 0)\<rparr> = boot []"
    by (simp add: boot_def fun_eq_iff)
  from keyboard_status_read_polls [of "boot []" "0x3000" "0"] a e
  have 1: "mem_read MR_KBSR (boot []) = Inr (0, boot [])" by simp
  from keyboard_status_read_polls [of "boot [0x41]" "0x3000" "0"] b
  have 2: "\<exists>w s'. mem_read MR_KBSR (boot [0x41]) = Inr (w, s') \<and> bit w 15 \<and>
           mem_read MR_KBDR s' = Inr (0x41, s')" by simp blast
  from keyboard_status_read_polls [of "boot [0x41]" "0x3000" "0"]
  have 3: "mem_read 0x3000 (boot [0x41]) = Inr (0, boot [0x41])" by (simp add: boot_def)
  from a b 1 2 3 show ?thesis by simp
qed

section \<open>String output\<close>

lemma memory_putc [simp]: "memory (putc ch s) = memory s"
  by (simp add: putc_def)

lemma puts_loop_upto:
  assumes "c \<le> k" and "k < UINT16_MAX" and "memory s k = 0"
    and "\<forall>i. c \<le> i \<and> i < k \<longrightarrow> memory s i \<noteq> 0"
  shows "puts_loop c s = Inr (s\<lparr>stdout := stdout s @ map (\<lambda>i. ucast (memory s i)) [c..<k]\<rparr>)"
  using assms
proof (induction "k - c" arbitrary: c s)
  case 0
  then have "c = k" by simp
  with 0 show ?case by (simp add: puts_loop.simps)
next
  case (Suc n)
  then have lt: "c < k" by simp
  with Suc.prems have nz: "memory s c \<noteq> 0" and cb: "c < UINT16_MAX" by auto
  let ?s1 = "putc (ucast (memory s c)) s"
  have ih: "puts_loop (c + 1) ?s1 =
      Inr (?s1\<lparr>stdout := stdout ?s1 @ map (\<lambda>i. ucast (memory ?s1 i)) [c + 1..<k]\<rparr>)"
    using Suc.hyps(2) Suc.prems lt by (intro Suc.hyps(1)) auto
  have "puts_loop c s = puts_loop (c + 1) ?s1"
    using nz cb by (subst puts_loop.simps) simp
  also note ih
  finally show ?case using lt by (simp add: putc_def upt_conv_Cons)
qed

lemma putsp_loop_upto_gen:
  assumes "memory s = m" and "c \<le> k" and "k < UINT16_MAX" and "m k = 0"
    and "\<forall>i. c \<le> i \<and> i < k \<longrightarrow> m i \<noteq> 0"
  shows "putsp_loop c s =
     Inr (s\<lparr>stdout := stdout s @ concat (map (\<lambda>i. ucast (m i AND 0xFF) #
             (if (ucast (drop_bit 8 (m i)) :: 8 word) \<noteq> 0
              then [ucast (drop_bit 8 (m i))] else [])) [c..<k])\<rparr>)"
  using assms
proof (induction "k - c" arbitrary: c s)
  case 0
  then have "c = k" by simp
  with 0 show ?case by (simp add: putsp_loop.simps)
next
  case (Suc n)
  then have lt: "c < k" by simp
  with Suc.prems have nz: "m c \<noteq> 0" and cb: "c < UINT16_MAX" by auto
  let ?s1 = "putc (ucast (m c AND 0xFF)) s"
  let ?s2 = "if (ucast (drop_bit 8 (m c)) :: 8 word) \<noteq> 0 then putc (ucast (drop_bit 8 (m c))) ?s1 else ?s1"
  have ms: "memory ?s2 = m" using Suc.prems(1) by simp
  have ih: "putsp_loop (c + 1) ?s2 =
     Inr (?s2\<lparr>stdout := stdout ?s2 @ concat (map (\<lambda>i. ucast (m i AND 0xFF) #
             (if (ucast (drop_bit 8 (m i)) :: 8 word) \<noteq> 0
              then [ucast (drop_bit 8 (m i))] else [])) [c + 1..<k])\<rparr>)"
  proof (rule Suc.hyps(1))
    show "n = k - (c + 1)" using Suc.hyps(2) by simp
    show "memory ?s2 = m" by (rule ms)
    show "c + 1 \<le> k" using lt by simp
    show "k < UINT16_MAX" by (rule Suc.prems(3))
    show "m k = 0" by (rule Suc.prems(4))
    show "\<forall>i. c + 1 \<le> i \<and> i < k \<longrightarrow> m i \<noteq> 0" using Suc.prems(5) by auto
  qed
  have "putsp_loop c s = putsp_loop (c + 1) ?s2"
    using nz cb Suc.prems(1) by (subst putsp_loop.simps) (simp add: Let_def)
  also note ih
  finally show ?case using lt by (simp add: putc_def upt_conv_Cons)
qed

lemma first_zero_exists:
  assumes "\<exists>j. c \<le> j \<and> j < (n::nat) \<and> m j = (0::16 word)"
  shows "\<exists>k. c \<le> k \<and> k < n \<and> m k = 0 \<and> (\<forall>i. c \<le> i \<and> i < k \<longrightarrow> m i \<noteq> 0)"
proof -
  define k where "k = (LEAST j. c \<le> j \<and> m j = 0)"
  from assms obtain j where j: "c \<le> j" "j < n" "m j = 0" by blast
  then have ex: "c \<le> j \<and> m j = 0" by simp
  have 1: "c \<le> k \<and> m k = 0" unfolding k_def by (rule LeastI [of _ j]) (rule ex)
  have 2: "k \<le> j" unfolding k_def by (rule Least_le) (rule ex)
  have 3: "\<forall>i. c \<le> i \<and> i < k \<longrightarrow> m i \<noteq> 0"
  proof (intro allI impI)
    fix i assume i: "c \<le> i \<and> i < k"
    then have "\<not> (c \<le> i \<and> m i = 0)" unfolding k_def using not_less_Least by blast
    with i show "m i \<noteq> 0" by simp
  qed
  from 1 2 3 j(2) show ?thesis by (intro exI [of _ k]) simp
qed

lemma ucast_low_byte: "(ucast ((w :: 16 word) AND 0xFF) :: 8 word) = ucast w"
proof (rule bit_word_eqI)
  fix n assume "n < LENGTH(8)"
  then have n: "n < 8" by simp
  have e: "mask 8 = (0xFF :: 16 word)" by (simp add: mask_eq_exp_minus_1)
  have "bit (mask 8 :: 16 word) n" using n by (simp add: bit_mask_iff)
  then have "bit (0xFF :: 16 word) n" by (simp only: e)
  then show "bit (ucast (w AND 0xFF) :: 8 word) n = bit (ucast w :: 8 word) n"
    using n by (simp add: bit_ucast_iff bit_and_iff)
qed

lemma puts_loop_sequence:
  assumes "c + length ws \<le> UINT16_MAX"
    and "\<forall>i<length ws. memory s (c + i) = ws ! i"
    and "0 \<in> set ws"
  shows "puts_loop c s = Inr (s\<lparr>stdout := stdout s @ map ucast (takeWhile (\<lambda>w. w \<noteq> 0) ws)\<rparr>)"
  using assms
proof (induction ws arbitrary: c s)
  case Nil
  then show ?case by simp
next
  case (Cons w ws)
  from Cons.prems(1) have cb: "c < UINT16_MAX" by simp
  from Cons.prems(2) have w: "memory s c = w" by fastforce
  show ?case
  proof (cases "w = 0")
    case True
    with w cb show ?thesis by (simp add: puts_loop.simps)
  next
    case False
    let ?s1 = "putc (ucast w) s"
    have ih: "puts_loop (c + 1) ?s1 =
        Inr (?s1\<lparr>stdout := stdout ?s1 @ map ucast (takeWhile (\<lambda>w. w \<noteq> 0) ws)\<rparr>)"
    proof (rule Cons.IH)
      show "c + 1 + length ws \<le> UINT16_MAX" using Cons.prems(1) by simp
      show "\<forall>i<length ws. memory ?s1 (c + 1 + i) = ws ! i"
      proof (intro allI impI)
        fix i assume "i < length ws"
        then have "memory s (c + Suc i) = (w # ws) ! Suc i" using Cons.prems(2) by fastforce
        then show "memory ?s1 (c + 1 + i) = ws ! i" by simp
      qed
      show "0 \<in> set ws" using Cons.prems(3) False by auto
    qed
    have "puts_loop c s = puts_loop (c + 1) ?s1"
      using False w cb by (subst puts_loop.simps) simp
    also note ih
    finally show ?thesis using False by (simp add: putc_def)
  qed
qed

text \<open>
  C8. Executing \<^verbatim>\<open>TRAP PUTS\<close> in a state whose memory holds, from the address in \<open>R0\<close>
  on, a sequence of words \<open>ws\<close> with a zero word in it (all of it inside the array): the
  pass ends normally and appends to the output exactly the low bytes of the words of
  \<open>ws\<close> before its first zero word, in order; nothing is written for the zero word or
  for what follows it.
\<close>

theorem puts_outputs_until_zero:
  assumes "drop_bit 12 instr = OP_TRAP" and "instr AND 0xFF = TRAP_PUTS"
    and "unat (reg s R_R0) + length ws \<le> UINT16_MAX"
    and "\<forall>i<length ws. memory s (unat (reg s R_R0) + i) = ws ! i"
    and "0 \<in> set ws"
  shows "\<exists>s'. execute instr s = Inr s' \<and>
              stdout s' = stdout s @ map (\<lambda>w. ucast (w AND 0xFF)) (takeWhile (\<lambda>w. w \<noteq> 0) ws)"
proof -
  let ?s = "s\<lparr>reg := (reg s)(R_R7 := reg s R_PC)\<rparr>"
  have e: "execute instr s = puts_loop (unat (reg s R_R0)) ?s"
    using assms(1,2) by (simp add: execute_def op_trap_def Let_def)
  have "puts_loop (unat (reg s R_R0)) ?s =
      Inr (?s\<lparr>stdout := stdout ?s @ map ucast (takeWhile (\<lambda>w. w \<noteq> 0) ws)\<rparr>)"
    using assms(3,4,5) by (intro puts_loop_sequence) simp_all
  with e show ?thesis by (simp add: ucast_low_byte)
qed

text \<open>
  The theorem at the sequence \<open>[0x48, 0x49, 0x00]\<close> stored at \<open>0x4000\<close>: the output is
  the two bytes of \<open>HI\<close>.
\<close>

theorem puts_outputs_until_zero_witness:
  "drop_bit 12 (0xF022 :: 16 word) = OP_TRAP \<and> (0xF022 :: 16 word) AND 0xFF = TRAP_PUTS \<and>
   (\<exists>s'. execute 0xF022
            \<lparr>reg = (\<lambda>_. 0)(R_R0 := 0x4000, R_PC := 0x3001),
             memory = (\<lambda>_. 0)(0x3000 := 0xF022, 0x4000 := 0x48, 0x4001 := 0x49, 0x4002 := 0),
             stdin = [], stdout = [], running = True\<rparr> = Inr s' \<and>
         stdout s' = [0x48, 0x49] \<and>
         stdout s' = map of_char ''HI'')"
proof -
  let ?s = "\<lparr>reg = (\<lambda>_. 0)(R_R0 := 0x4000, R_PC := 0x3001),
             memory = (\<lambda>_. 0)(0x3000 := 0xF022, 0x4000 := 0x48, 0x4001 := 0x49, 0x4002 := 0),
             stdin = [], stdout = [], running = True\<rparr>"
  let ?ws = "[0x48, 0x49, 0] :: 16 word list"
  have d: "drop_bit 12 (0xF022 :: 16 word) = OP_TRAP" by simp
  have v: "(0xF022 :: 16 word) AND 0xFF = TRAP_PUTS" by simp
  have b: "unat (reg ?s R_R0) + length ?ws \<le> UINT16_MAX" by simp
  have m: "\<forall>i<length ?ws. memory ?s (unat (reg ?s R_R0) + i) = ?ws ! i"
  proof (intro allI impI)
    fix i assume "i < length ?ws"
    then have "i = 0 \<or> i = 1 \<or> i = 2" by auto
    then show "memory ?s (unat (reg ?s R_R0) + i) = ?ws ! i" by auto
  qed
  have z: "0 \<in> set ?ws" by simp
  from puts_outputs_until_zero [OF d v b m z] obtain s' where
    "execute 0xF022 ?s = Inr s'" "stdout s' = [0x48, 0x49]" by auto
  moreover from this(2) have "stdout s' = map of_char ''HI''" by simp
  ultimately show ?thesis using d v by blast
qed

lemma execute_trap_puts:
  "drop_bit 12 instr = OP_TRAP \<Longrightarrow> instr AND 0xFF = TRAP_PUTS \<Longrightarrow>
   execute instr s = puts_loop (unat (reg s R_R0)) (s\<lparr>reg := (reg s)(R_R7 := reg s R_PC)\<rparr>)"
  by (simp add: execute_def op_trap_def Let_def)

lemma execute_trap_putsp:
  "drop_bit 12 instr = OP_TRAP \<Longrightarrow> instr AND 0xFF = TRAP_PUTSP \<Longrightarrow>
   execute instr s = putsp_loop (unat (reg s R_R0)) (s\<lparr>reg := (reg s)(R_R7 := reg s R_PC)\<rparr>)"
  by (simp add: execute_def op_trap_def Let_def)

text \<open>
  C10. Executing \<^verbatim>\<open>TRAP PUTS\<close> or \<^verbatim>\<open>TRAP PUTSP\<close> in a state where some cell of
  \<^verbatim>\<open>memory\<close> at or above the index in \<open>R0\<close> holds a zero word: the instruction returns
  normally. There is then a first such cell \<open>k\<close>; the scan reads the cells
  \<open>R0, R0 + 1, \<dots>, k - 1\<close> of the array itself, one per iteration and in this order,
  and stops at \<open>k\<close>: \<^verbatim>\<open>PUTS\<close> writes the low byte of each cell, \<^verbatim>\<open>PUTSP\<close> its low byte
  and then its high byte if that is not zero. Besides the output only \<open>R7\<close> changes (the
  trap's return address): the pending keystrokes and the memory are as before, also when
  the scan passes the keyboard status address.
\<close>

theorem scan_loops_stop_at_first_zero:
  assumes "drop_bit 12 instr = OP_TRAP"
    and "instr AND 0xFF = TRAP_PUTS \<or> instr AND 0xFF = TRAP_PUTSP"
    and "\<exists>j. unat (reg s R_R0) \<le> j \<and> j < UINT16_MAX \<and> memory s j = 0"
  shows "\<exists>k. unat (reg s R_R0) \<le> k \<and> k < UINT16_MAX \<and> memory s k = 0 \<and>
           (\<forall>i. unat (reg s R_R0) \<le> i \<and> i < k \<longrightarrow> memory s i \<noteq> 0) \<and>
           execute instr s =
             Inr (s\<lparr>reg := (reg s)(R_R7 := reg s R_PC),
                    stdout := stdout s @
                      (if instr AND 0xFF = TRAP_PUTS
                       then map (\<lambda>i. ucast (memory s i)) [unat (reg s R_R0)..<k]
                       else concat (map (\<lambda>i. ucast (memory s i AND 0xFF) #
                                  (if (ucast (drop_bit 8 (memory s i)) :: 8 word) \<noteq> 0
                                   then [ucast (drop_bit 8 (memory s i))] else []))
                            [unat (reg s R_R0)..<k]))\<rparr>)"
proof -
  let ?s = "s\<lparr>reg := (reg s)(R_R7 := reg s R_PC)\<rparr>"
  from first_zero_exists [OF assms(3)] obtain k where
    k: "unat (reg s R_R0) \<le> k" "k < UINT16_MAX" "memory s k = 0"
       "\<forall>i. unat (reg s R_R0) \<le> i \<and> i < k \<longrightarrow> memory s i \<noteq> 0"
    by blast
  have m: "memory ?s = memory s" by simp
  have k': "memory ?s k = 0" "\<forall>i. unat (reg s R_R0) \<le> i \<and> i < k \<longrightarrow> memory ?s i \<noteq> 0"
    using k(3,4) by simp_all
  from assms(2) have "execute instr s =
             Inr (s\<lparr>reg := (reg s)(R_R7 := reg s R_PC),
                    stdout := stdout s @
                      (if instr AND 0xFF = TRAP_PUTS
                       then map (\<lambda>i. ucast (memory s i)) [unat (reg s R_R0)..<k]
                       else concat (map (\<lambda>i. ucast (memory s i AND 0xFF) #
                                  (if (ucast (drop_bit 8 (memory s i)) :: 8 word) \<noteq> 0
                                   then [ucast (drop_bit 8 (memory s i))] else []))
                            [unat (reg s R_R0)..<k]))\<rparr>)"
  proof
    assume v: "instr AND 0xFF = TRAP_PUTS"
    from puts_loop_upto [OF k(1,2) k'] show ?thesis
      by (simp add: execute_trap_puts [OF assms(1) v] v)
  next
    assume v: "instr AND 0xFF = TRAP_PUTSP"
    from putsp_loop_upto_gen [OF m k] show ?thesis
      by (simp add: execute_trap_putsp [OF assms(1) v] v)
  qed
  with k show ?thesis by blast
qed

text \<open>
  The theorem on both traps scanning from \<open>0xFDFF\<close> across the keyboard status cell
  \<open>0xFE00\<close>, with a keystroke pending: the cell is read as it is and the keystroke stays
  pending.
\<close>

theorem scan_loops_stop_at_first_zero_witness:
  "drop_bit 12 (0xF022 :: 16 word) = OP_TRAP \<and> (0xF022 :: 16 word) AND 0xFF = TRAP_PUTS \<and>
   drop_bit 12 (0xF024 :: 16 word) = OP_TRAP \<and> (0xF024 :: 16 word) AND 0xFF = TRAP_PUTSP \<and>
   (\<exists>j. unat (reg \<lparr>reg = (\<lambda>_. 0)(R_R0 := 0xFDFF, R_PC := 0x3001),
                   memory = (\<lambda>_. 0)(0xFDFF := 0x48, 0xFE00 := 0x6261, 0xFE01 := 0),
                   stdin = [0x41], stdout = [], running = True\<rparr> R_R0) \<le> j \<and>
        j < UINT16_MAX \<and>
        memory \<lparr>reg = (\<lambda>_. 0)(R_R0 := 0xFDFF, R_PC := 0x3001),
                memory = (\<lambda>_. 0)(0xFDFF := 0x48, 0xFE00 := 0x6261, 0xFE01 := 0),
                stdin = [0x41], stdout = [], running = True\<rparr> j = 0) \<and>
   execute 0xF022
       \<lparr>reg = (\<lambda>_. 0)(R_R0 := 0xFDFF, R_PC := 0x3001),
        memory = (\<lambda>_. 0)(0xFDFF := 0x48, 0xFE00 := 0x6261, 0xFE01 := 0),
        stdin = [0x41], stdout = [], running = True\<rparr>
     = Inr \<lparr>reg = (\<lambda>_. 0)(R_R0 := 0xFDFF, R_PC := 0x3001, R_R7 := 0x3001),
            memory = (\<lambda>_. 0)(0xFDFF := 0x48, 0xFE00 := 0x6261, 0xFE01 := 0),
            stdin = [0x41], stdout = [0x48, 0x61], running = True\<rparr> \<and>
   execute 0xF024
       \<lparr>reg = (\<lambda>_. 0)(R_R0 := 0xFDFF, R_PC := 0x3001),
        memory = (\<lambda>_. 0)(0xFDFF := 0x48, 0xFE00 := 0x6261, 0xFE01 := 0),
        stdin = [0x41], stdout = [], running = True\<rparr>
     = Inr \<lparr>reg = (\<lambda>_. 0)(R_R0 := 0xFDFF, R_PC := 0x3001, R_R7 := 0x3001),
            memory = (\<lambda>_. 0)(0xFDFF := 0x48, 0xFE00 := 0x6261, 0xFE01 := 0),
            stdin = [0x41], stdout = [0x48, 0x61, 0x62], running = True\<rparr>"
proof -
  let ?s = "\<lparr>reg = (\<lambda>_. 0)(R_R0 := 0xFDFF, R_PC := 0x3001),
        memory = (\<lambda>_. 0)(0xFDFF := 0x48, 0xFE00 := 0x6261, 0xFE01 := 0),
        stdin = [0x41], stdout = [], running = True\<rparr>"
  have c: "unat (reg ?s R_R0) = 65023" by simp
  have d1: "drop_bit 12 (0xF022 :: 16 word) = OP_TRAP" and v1: "(0xF022 :: 16 word) AND 0xFF = TRAP_PUTS"
    and d2: "drop_bit 12 (0xF024 :: 16 word) = OP_TRAP" and v2: "(0xF024 :: 16 word) AND 0xFF = TRAP_PUTSP"
    by simp_all
  have h: "\<exists>j. unat (reg ?s R_R0) \<le> j \<and> j < UINT16_MAX \<and> memory ?s j = 0"
    by (rule exI [of _ 65025]) simp
  have first: "k = 65025"
    if k: "unat (reg ?s R_R0) \<le> k" "memory ?s k = 0"
       "\<forall>i. unat (reg ?s R_R0) \<le> i \<and> i < k \<longrightarrow> memory ?s i \<noteq> 0" for k
  proof -
    have k1: "65023 \<le> k" using k(1) by (simp only: c)
    have "k \<noteq> 65023" "k \<noteq> 65024" using k(2) by auto
    with k1 have k2: "65025 \<le> k" by simp
    have "\<not> 65025 < k"
    proof
      assume "65025 < k"
      then have "unat (reg ?s R_R0) \<le> 65025 \<and> 65025 < k" by (simp only: c) simp
      with k(3) have "memory ?s 65025 \<noteq> 0" by blast
      then show False by simp
    qed
    with k2 show ?thesis by simp
  qed
  have u: "[65023..<65025] = [65023, 65024 :: nat]" by (simp add: upt_rec)
  from scan_loops_stop_at_first_zero [OF d1 disjI1 [OF v1] h] obtain k where
    k: "unat (reg ?s R_R0) \<le> k" "memory ?s k = 0"
       "\<forall>i. unat (reg ?s R_R0) \<le> i \<and> i < k \<longrightarrow> memory ?s i \<noteq> 0"
    and p: "execute 0xF022 ?s =
             Inr (?s\<lparr>reg := (reg ?s)(R_R7 := reg ?s R_PC),
                    stdout := stdout ?s @
                      (if (0xF022 :: 16 word) AND 0xFF = TRAP_PUTS
                       then map (\<lambda>i. ucast (memory ?s i)) [unat (reg ?s R_R0)..<k]
                       else concat (map (\<lambda>i. ucast (memory ?s i AND 0xFF) #
                                  (if (ucast (drop_bit 8 (memory ?s i)) :: 8 word) \<noteq> 0
                                   then [ucast (drop_bit 8 (memory ?s i))] else []))
                            [unat (reg ?s R_R0)..<k]))\<rparr>)"
    by blast
  from p have P: "execute 0xF022 ?s =
      Inr (?s\<lparr>reg := (reg ?s)(R_R7 := 0x3001), stdout := [0x48, 0x61]\<rparr>)"
    by (simp only: c first [OF k] u) simp
  from scan_loops_stop_at_first_zero [OF d2 disjI2 [OF v2] h] obtain k' where
    k': "unat (reg ?s R_R0) \<le> k'" "memory ?s k' = 0"
       "\<forall>i. unat (reg ?s R_R0) \<le> i \<and> i < k' \<longrightarrow> memory ?s i \<noteq> 0"
    and q: "execute 0xF024 ?s =
             Inr (?s\<lparr>reg := (reg ?s)(R_R7 := reg ?s R_PC),
                    stdout := stdout ?s @
                      (if (0xF024 :: 16 word) AND 0xFF = TRAP_PUTS
                       then map (\<lambda>i. ucast (memory ?s i)) [unat (reg ?s R_R0)..<k']
                       else concat (map (\<lambda>i. ucast (memory ?s i AND 0xFF) #
                                  (if (ucast (drop_bit 8 (memory ?s i)) :: 8 word) \<noteq> 0
                                   then [ucast (drop_bit 8 (memory ?s i))] else []))
                            [unat (reg ?s R_R0)..<k']))\<rparr>)"
    by blast
  from q have Q: "execute 0xF024 ?s =
      Inr (?s\<lparr>reg := (reg ?s)(R_R7 := 0x3001), stdout := [0x48, 0x61, 0x62]\<rparr>)"
    by (simp only: c first [OF k'] u) simp
  from d1 v1 d2 v2 h P Q show ?thesis by simp
qed

section \<open>Condition flags\<close>

lemma drop_bit_15_iff: "(drop_bit 15 (w :: 16 word) \<noteq> 0) = bit w 15"
proof
  assume "drop_bit 15 w \<noteq> 0"
  then obtain i where i: "bit (drop_bit 15 w) i"
    by (auto simp add: bit_eq_iff)
  then have b: "bit w (15 + i)" by (simp add: bit_drop_bit_eq)
  then have "15 + i < LENGTH(16)" by (rule bit_imp_le_length)
  then have "i = 0" by simp
  with b show "bit w 15" by simp
next
  assume "bit w 15"
  then have "bit (drop_bit 15 w) 0" by (simp add: bit_drop_bit_eq)
  then show "drop_bit 15 w \<noteq> 0" by auto
qed

lemma reg_update_flags_cond:
  "reg (update_flags r s) R_COND =
     (if reg s r = 0 then FL_ZRO else if bit (reg s r) 15 then FL_NEG else FL_POS)"
  by (simp add: update_flags_def drop_bit_15_iff)

lemma reg_update_flags_other: "i \<noteq> R_COND \<Longrightarrow> reg (update_flags r s) i = reg s i"
  by (simp add: update_flags_def)

lemma update_flags_rest:
  "memory (update_flags r s) = memory s" "stdin (update_flags r s) = stdin s"
  "stdout (update_flags r s) = stdout s" "running (update_flags r s) = running s"
  by (simp_all add: update_flags_def)

lemma reg_field_less: "reg_field k instr < 8"
proof -
  have "drop_bit k instr AND 7 \<le> 7" by (rule word_and_le1)
  then have "unat (drop_bit k instr AND 7) \<le> unat (7 :: 16 word)" by (simp only: word_le_nat_alt)
  then show ?thesis by (simp add: reg_field_def)
qed

lemma reg_field_neq_cond [simp]: "reg_field k instr \<noteq> R_COND"
  using reg_field_less [of k instr] by simp

lemma write_then_update_flags:
  assumes "d \<noteq> R_COND" and "s' = update_flags d (s\<lparr>reg := f(d := v)\<rparr>)"
  shows "reg s' d = v"
    and "reg s' R_COND = (if v = 0 then FL_ZRO else if bit v 15 then FL_NEG else FL_POS)"
  using assms by (simp_all add: reg_update_flags_cond reg_update_flags_other)


lemma reg_putc [simp]: "reg (putc ch s) = reg s"
  by (simp add: putc_def)

lemma puts_loop_reg:
  "puts_loop c s = Inr s' \<Longrightarrow> reg s' = reg s"
  "puts_loop c s = Inl (f, s') \<Longrightarrow> reg s' = reg s"
proof (induction c s rule: puts_loop.induct)
  case (1 c s)
  {
    case 1
    then show ?case using "1.IH"(1)
      by (subst (asm) puts_loop.simps) (auto split: if_splits)
  next
    case 2
    then show ?case using "1.IH"(2)
      by (subst (asm) puts_loop.simps) (auto split: if_splits)
  }
qed

lemma putsp_loop_reg:
  "putsp_loop c s = Inr s' \<Longrightarrow> reg s' = reg s"
  "putsp_loop c s = Inl (f, s') \<Longrightarrow> reg s' = reg s"
proof (induction c s rule: putsp_loop.induct)
  case (1 c s)
  {
    case 1
    then show ?case using "1.IH"(1)
      by (subst (asm) putsp_loop.simps) (auto simp add: Let_def split: if_splits)
  next
    case 2
    then show ?case using "1.IH"(2)
      by (subst (asm) putsp_loop.simps) (auto simp add: Let_def split: if_splits)
  }
qed

lemma mem_write_reg:
  "mem_write a v s = Inr s' \<Longrightarrow> reg s' = reg s"
  "mem_write a v s = Inl (f, s') \<Longrightarrow> reg s' = reg s"
  by (auto simp add: mem_write_def split: if_splits)

lemma update_flags_one_hot: "reg (update_flags r s) R_COND \<in> {FL_POS, FL_ZRO, FL_NEG}"
  by (simp add: reg_update_flags_cond)

lemma alu_form:
  "\<exists>v. op_add instr s = update_flags (reg_field 9 instr) (s\<lparr>reg := (reg s)(reg_field 9 instr := v)\<rparr>)"
  "\<exists>v. op_and instr s = update_flags (reg_field 9 instr) (s\<lparr>reg := (reg s)(reg_field 9 instr := v)\<rparr>)"
  "\<exists>v. op_not instr s = update_flags (reg_field 9 instr) (s\<lparr>reg := (reg s)(reg_field 9 instr := v)\<rparr>)"
  "\<exists>v. op_lea instr s = update_flags (reg_field 9 instr) (s\<lparr>reg := (reg s)(reg_field 9 instr := v)\<rparr>)"
  by (auto simp add: op_add_def op_and_def op_not_def op_lea_def Let_def)

lemma load_form:
  "op_ld instr s = Inr s' \<Longrightarrow>
     \<exists>s1 f v. s' = update_flags (reg_field 9 instr) (s1\<lparr>reg := f(reg_field 9 instr := v)\<rparr>)"
  "op_ldi instr s = Inr s' \<Longrightarrow>
     \<exists>s1 f v. s' = update_flags (reg_field 9 instr) (s1\<lparr>reg := f(reg_field 9 instr := v)\<rparr>)"
  "op_ldr instr s = Inr s' \<Longrightarrow>
     \<exists>s1 f v. s' = update_flags (reg_field 9 instr) (s1\<lparr>reg := f(reg_field 9 instr := v)\<rparr>)"
  by (auto simp add: op_ld_def op_ldi_def op_ldr_def Let_def split: sum.splits prod.splits)

lemma trap_input_form:
  assumes "op_trap instr s = Inr s'" and "instr AND 0xFF \<in> {TRAP_GETC, TRAP_IN}"
  shows "\<exists>s1 f v. s' = update_flags R_R0 (s1\<lparr>reg := f(R_R0 := v)\<rparr>)"
  using assms by (auto simp add: op_trap_def Let_def split: prod.splits) blast+

lemma jump_cond:
  "reg (op_br instr s) R_COND = reg s R_COND"
  "reg (op_jmp instr s) R_COND = reg s R_COND"
  "reg (op_jsr instr s) R_COND = reg s R_COND"
  by (simp_all add: op_br_def op_jmp_def op_jsr_def Let_def)

lemma load_fault_reg:
  "op_ld instr s = Inl (f, s') \<Longrightarrow> reg s' = reg s"
  "op_ldi instr s = Inl (f, s') \<Longrightarrow> reg s' = reg s"
  "op_ldr instr s = Inl (f, s') \<Longrightarrow> reg s' = reg s"
  by (auto simp add: op_ld_def op_ldi_def op_ldr_def Let_def split: sum.splits prod.splits;
      metis mem_read_fault_reg mem_read_reg)+

lemma store_reg:
  "op_st instr s = Inr s' \<Longrightarrow> reg s' = reg s"
  "op_sti instr s = Inr s' \<Longrightarrow> reg s' = reg s"
  "op_str instr s = Inr s' \<Longrightarrow> reg s' = reg s"
  "op_st instr s = Inl (f, s') \<Longrightarrow> reg s' = reg s"
  "op_sti instr s = Inl (f, s') \<Longrightarrow> reg s' = reg s"
  "op_str instr s = Inl (f, s') \<Longrightarrow> reg s' = reg s"
  by (auto simp add: op_st_def op_sti_def op_str_def Let_def split: sum.splits prod.splits;
      metis mem_write_reg mem_read_fault_reg mem_read_reg)+


lemma trap_cond:
  "op_trap instr s = Inr s' \<Longrightarrow>
     reg s' R_COND \<in> {FL_POS, FL_ZRO, FL_NEG} \<or> reg s' R_COND = reg s R_COND"
  "op_trap instr s = Inl (f, s') \<Longrightarrow> reg s' R_COND = reg s R_COND"
proof -
  let ?s = "s\<lparr>reg := (reg s)(R_R7 := reg s R_PC)\<rparr>"
  have c: "reg ?s R_COND = reg s R_COND" by simp
  {
    assume a: "op_trap instr s = Inr s'"
    show "reg s' R_COND \<in> {FL_POS, FL_ZRO, FL_NEG} \<or> reg s' R_COND = reg s R_COND"
    proof (cases "instr AND 0xFF \<in> {TRAP_GETC, TRAP_IN}")
      case True
      from trap_input_form [OF a True] obtain s1 g v where
        "s' = update_flags R_R0 (s1\<lparr>reg := g(R_R0 := v)\<rparr>)" by blast
      then show ?thesis by (simp only: update_flags_one_hot simp_thms)
    next
      case False
      with a have "reg s' = reg ?s"
        by (auto simp add: op_trap_def Let_def print_string_def split: if_splits
            dest: puts_loop_reg putsp_loop_reg)
      then show ?thesis by simp
    qed
  }
  {
    assume a: "op_trap instr s = Inl (f, s')"
    then have "reg s' = reg ?s"
      by (auto simp add: op_trap_def Let_def split: if_splits prod.splits
          dest: puts_loop_reg putsp_loop_reg)
    then show "reg s' R_COND = reg s R_COND" by simp
  }
qed

lemma execute_cond:
  "execute instr s = Inr s' \<Longrightarrow>
     reg s' R_COND \<in> {FL_POS, FL_ZRO, FL_NEG} \<or> reg s' R_COND = reg s R_COND"
  "execute instr s = Inl (f, s') \<Longrightarrow> reg s' R_COND = reg s R_COND"
proof -
  define Q where "Q = (\<lambda>t :: machine. reg t R_COND \<in> {FL_POS, FL_ZRO, FL_NEG} \<or> reg t R_COND = reg s R_COND)"
  have uf: "\<And>d t. Q (update_flags d t)"
    unfolding Q_def by (rule disjI1) (rule update_flags_one_hot)
  have same: "\<And>t. reg t = reg s \<Longrightarrow> Q t"
    unfolding Q_def by simp
  have alu: "Q (op_add instr s)" "Q (op_and instr s)" "Q (op_not instr s)" "Q (op_lea instr s)"
    by (metis alu_form(1) uf, metis alu_form(2) uf, metis alu_form(3) uf, metis alu_form(4) uf)
  have jump: "Q (op_br instr s)" "Q (op_jmp instr s)" "Q (op_jsr instr s)" "Q s"
    unfolding Q_def by (simp_all only: jump_cond simp_thms)
  have load: "\<And>t. op_ld instr s = Inr t \<Longrightarrow> Q t" "\<And>t. op_ldi instr s = Inr t \<Longrightarrow> Q t"
    "\<And>t. op_ldr instr s = Inr t \<Longrightarrow> Q t"
    by (metis load_form(1) uf, metis load_form(2) uf, metis load_form(3) uf)
  have store: "\<And>t. op_st instr s = Inr t \<Longrightarrow> Q t" "\<And>t. op_sti instr s = Inr t \<Longrightarrow> Q t"
    "\<And>t. op_str instr s = Inr t \<Longrightarrow> Q t"
    by (metis store_reg(1) same, metis store_reg(2) same, metis store_reg(3) same)
  have trap: "\<And>t. op_trap instr s = Inr t \<Longrightarrow> Q t"
    unfolding Q_def by (rule trap_cond(1))
  {
    assume "execute instr s = Inr s'"
    then have "Q s'"
      by (auto simp add: execute_def Let_def alu jump split: if_splits
          intro: load store trap same)
    then show "reg s' R_COND \<in> {FL_POS, FL_ZRO, FL_NEG} \<or> reg s' R_COND = reg s R_COND"
      by (simp only: Q_def)
  }
  {
    assume "execute instr s = Inl (f, s')"
    then have "reg s' R_COND = reg s R_COND \<or> reg s' = reg s"
      by (auto simp add: execute_def Let_def split: if_splits
          dest: load_fault_reg store_reg(4-6) trap_cond(2))
    then show "reg s' R_COND = reg s R_COND" by auto
  }
qed


lemma fetch_fault_reg:
  "fetch s = Inl (f, s1) \<Longrightarrow> reg s1 = (reg s)(R_PC := reg s R_PC + 1)"
  by (auto simp add: fetch_def Let_def dest: mem_read_fault_reg)

lemma step_cond:
  assumes "reg s R_COND \<in> {FL_POS, FL_ZRO, FL_NEG}"
  shows "step s = Inr s' \<Longrightarrow> reg s' R_COND \<in> {FL_POS, FL_ZRO, FL_NEG}"
    and "step s = Inl (f, s') \<Longrightarrow> reg s' R_COND \<in> {FL_POS, FL_ZRO, FL_NEG}"
proof -
  {
    assume a: "step s = Inr s'"
    then obtain instr s1 where f: "fetch s = Inr (instr, s1)" and e: "execute instr s1 = Inr s'"
      by (auto simp add: step_def split: sum.splits)
    from fetch_reg [OF f] have "reg s1 R_COND = reg s R_COND" by simp
    with execute_cond(1) [OF e] assms
    show "reg s' R_COND \<in> {FL_POS, FL_ZRO, FL_NEG}" by auto
  }
  {
    assume a: "step s = Inl (f, s')"
    then consider (fetch) "fetch s = Inl (f, s')"
      | (exec) instr s1 where "fetch s = Inr (instr, s1)" "execute instr s1 = Inl (f, s')"
      by (auto simp add: step_def split: sum.splits)
    then have "reg s' R_COND = reg s R_COND"
    proof cases
      case fetch
      from fetch_fault_reg [OF this] show ?thesis by simp
    next
      case exec
      from fetch_reg [OF exec(1)] have "reg s1 R_COND = reg s R_COND" by simp
      with execute_cond(2) [OF exec(2)] show ?thesis by simp
    qed
    with assms show "reg s' R_COND \<in> {FL_POS, FL_ZRO, FL_NEG}" by simp
  }
qed

lemma loop_cond:
  assumes "reg s R_COND \<in> {FL_POS, FL_ZRO, FL_NEG}"
  shows "loop n s = Inr s' \<Longrightarrow> reg s' R_COND \<in> {FL_POS, FL_ZRO, FL_NEG}"
    and "loop n s = Inl (f, s') \<Longrightarrow> reg s' R_COND \<in> {FL_POS, FL_ZRO, FL_NEG}"
  using assms
proof (induction n arbitrary: s)
  case 0
  {
    case 1
    then show ?case by simp
  next
    case 2
    then show ?case by simp
  }
next
  case (Suc n)
  {
    case 1
    show ?case
    proof (cases "running s")
      case True
      with 1(1) obtain t where t: "step s = Inr t" "loop n t = Inr s'"
        by (auto split: sum.splits)
      from step_cond(1) [OF 1(2) t(1)] have "reg t R_COND \<in> {FL_POS, FL_ZRO, FL_NEG}" .
      from Suc.IH(1) [OF t(2) this] show ?thesis .
    next
      case False
      with 1 show ?thesis by simp
    qed
  next
    case 2
    show ?case
    proof (cases "running s")
      case True
      with 2(1) consider (now) "step s = Inl (f, s')"
        | (later) t where "step s = Inr t" "loop n t = Inl (f, s')"
        by (auto split: sum.splits)
      then show ?thesis
      proof cases
        case now
        from step_cond(2) [OF 2(2) now] show ?thesis .
      next
        case later
        from step_cond(1) [OF 2(2) later(1)] have "reg t R_COND \<in> {FL_POS, FL_ZRO, FL_NEG}" .
        from Suc.IH(2) [OF later(2) this] show ?thesis .
      qed
    next
      case False
      with 2 show ?thesis by simp
    qed
  }
qed

lemma main_setup_cond: "reg (main_setup s) R_COND = FL_ZRO"
  by (simp add: main_setup_def)

lemma sign_flag:
  "(if v = 0 then FL_ZRO else if bit (v :: 16 word) 15 then FL_NEG else FL_POS) =
   (if sint v = 0 then FL_ZRO else if sint v < 0 then FL_NEG else FL_POS)"
proof -
  have a: "bit v 15 = (sint v < 0)" using bit_last_iff [of v] by simp
  have "(v = 0) = (sint v = sint (0 :: 16 word))" by (rule word_eq_iff_signed)
  then have b: "(v = 0) = (sint v = 0)" by simp
  show ?thesis by (simp only: a b)
qed

lemma execute_register_write:
  assumes "execute instr s = Inr s'"
    and "drop_bit 12 instr \<in> {OP_ADD, OP_AND, OP_NOT, OP_LD, OP_LDI, OP_LDR, OP_LEA}"
  shows "\<exists>s1 g v. s' = update_flags (reg_field 9 instr) (s1\<lparr>reg := g(reg_field 9 instr := v)\<rparr>)"
proof -
  from assms(2) consider "drop_bit 12 instr = OP_ADD" | "drop_bit 12 instr = OP_AND"
    | "drop_bit 12 instr = OP_NOT" | "drop_bit 12 instr = OP_LD" | "drop_bit 12 instr = OP_LDI"
    | "drop_bit 12 instr = OP_LDR" | "drop_bit 12 instr = OP_LEA" by auto
  then show ?thesis
  proof cases
    case 1
    with assms(1) have "s' = op_add instr s" by (simp add: execute_def)
    with alu_form(1) [of instr s] show ?thesis by metis
  next
    case 2
    with assms(1) have "s' = op_and instr s" by (simp add: execute_def)
    with alu_form(2) [of instr s] show ?thesis by metis
  next
    case 3
    with assms(1) have "s' = op_not instr s" by (simp add: execute_def)
    with alu_form(3) [of instr s] show ?thesis by metis
  next
    case 4
    with assms(1) have "op_ld instr s = Inr s'" by (simp add: execute_def)
    then show ?thesis by (rule load_form(1))
  next
    case 5
    with assms(1) have "op_ldi instr s = Inr s'" by (simp add: execute_def)
    then show ?thesis by (rule load_form(2))
  next
    case 6
    with assms(1) have "op_ldr instr s = Inr s'" by (simp add: execute_def)
    then show ?thesis by (rule load_form(3))
  next
    case 7
    with assms(1) have "s' = op_lea instr s" by (simp add: execute_def)
    with alu_form(4) [of instr s] show ?thesis by metis
  qed
qed

lemma flags_of_written_register:
  assumes "d \<noteq> R_COND" and "s' = update_flags d (s1\<lparr>reg := g(d := v)\<rparr>)"
  shows "reg s' R_COND \<in> {FL_POS, FL_ZRO, FL_NEG} \<and>
         reg s' R_COND = (if reg s' d = 0 then FL_ZRO
                          else if bit (reg s' d) 15 then FL_NEG else FL_POS) \<and>
         reg s' R_COND = (if sint (reg s' d) = 0 then FL_ZRO
                          else if sint (reg s' d) < 0 then FL_NEG else FL_POS)"
proof -
  have 1: "reg s' R_COND \<in> {FL_POS, FL_ZRO, FL_NEG}"
    by (simp only: assms(2) update_flags_one_hot)
  have 2: "reg s' R_COND = (if reg s' d = 0 then FL_ZRO
                          else if bit (reg s' d) 15 then FL_NEG else FL_POS)"
    by (simp only: write_then_update_flags [OF assms])
  from 2 have 3: "reg s' R_COND = (if sint (reg s' d) = 0 then FL_ZRO
                          else if sint (reg s' d) < 0 then FL_NEG else FL_POS)"
    by (simp only: sign_flag)
  from 1 2 3 show ?thesis by (intro conjI)
qed

lemma step_after_fetch: "fetch s = Inr (instr, s1) \<Longrightarrow> step s = execute instr s1"
  by (simp add: step_def)

lemma alu_completes:
  "drop_bit 12 instr \<in> {OP_ADD, OP_AND, OP_NOT, OP_LEA} \<Longrightarrow> \<exists>s'. execute instr s = Inr s'"
  by (auto simp add: execute_def)

lemma ld_completes:
  assumes "drop_bit 12 instr = OP_LD"
    and "reg s R_PC + sign_extend (instr AND 0x1FF) 9 \<noteq> 0xFFFF"
  shows "\<exists>s'. execute instr s = Inr s'"
proof -
  from mem_read_in_bounds [OF assms(2)] obtain v t where
    "mem_read (reg s R_PC + sign_extend (instr AND 0x1FF) 9) s = Inr (v, t)" by blast
  with assms(1) show ?thesis by (simp add: execute_def op_ld_def Let_def)
qed

lemma ldr_completes:
  assumes "drop_bit 12 instr = OP_LDR"
    and "reg s (reg_field 6 instr) + sign_extend (instr AND 0x3F) 6 \<noteq> 0xFFFF"
  shows "\<exists>s'. execute instr s = Inr s'"
proof -
  from mem_read_in_bounds [OF assms(2)] obtain v t where
    "mem_read (reg s (reg_field 6 instr) + sign_extend (instr AND 0x3F) 6) s = Inr (v, t)" by blast
  with assms(1) show ?thesis by (simp add: execute_def op_ldr_def Let_def)
qed

lemma ldi_completes:
  assumes "drop_bit 12 instr = OP_LDI"
    and "mem_read (reg s R_PC + sign_extend (instr AND 0x1FF) 9) s = Inr (a, t)"
    and "a \<noteq> 0xFFFF"
  shows "\<exists>s'. execute instr s = Inr s'"
proof -
  from mem_read_in_bounds [OF assms(3)] obtain v u where "mem_read a t = Inr (v, u)" by blast
  with assms(1,2) show ?thesis by (simp add: execute_def op_ldi_def Let_def)
qed

lemma trap_input_completes:
  assumes "drop_bit 12 instr = OP_TRAP" and "instr AND 0xFF \<in> {TRAP_GETC, TRAP_IN}"
  shows "\<exists>s'. execute instr s = Inr s'"
  using assms by (auto simp add: execute_def op_trap_def Let_def split: prod.splits)


text \<open>
  C4. A pass of the loop that executes \<^verbatim>\<open>ADD\<close>, \<^verbatim>\<open>AND\<close>, \<^verbatim>\<open>NOT\<close> or \<^verbatim>\<open>LEA\<close>, or
  \<^verbatim>\<open>LD\<close>, \<^verbatim>\<open>LDI\<close> or \<^verbatim>\<open>LDR\<close> reading at addresses other than \<open>0xFFFF\<close> (the one
  address outside the array), or the trap \<^verbatim>\<open>GETC\<close> or \<^verbatim>\<open>IN\<close>, ends normally, and after it
  the condition register is one of \<^verbatim>\<open>FL_POS\<close>, \<^verbatim>\<open>FL_ZRO\<close>, \<^verbatim>\<open>FL_NEG\<close>, namely
  \<^verbatim>\<open>FL_ZRO\<close> if the destination register (bits 11 to 9 of the instruction, \<open>R0\<close> for the
  traps) now holds 0, \<^verbatim>\<open>FL_NEG\<close> if its bit 15 is set (its signed value is negative)
  and \<^verbatim>\<open>FL_POS\<close> otherwise. The same holds after any pass that executes one of the seven
  instructions and ends normally. And in every state the loop reaches from the setup of
  \<^verbatim>\<open>main\<close>, which sets \<^verbatim>\<open>FL_ZRO\<close>, also the state in which a fault ends the run, the
  condition register is one of the three.
\<close>

theorem condition_flags_one_hot:
  "(fetch s = Inr (instr, sf) \<and>
      (drop_bit 12 instr \<in> {OP_ADD, OP_AND, OP_NOT, OP_LEA} \<or>
       drop_bit 12 instr = OP_LD \<and> reg sf R_PC + sign_extend (instr AND 0x1FF) 9 \<noteq> 0xFFFF \<or>
       drop_bit 12 instr = OP_LDI \<and>
         mem_read (reg sf R_PC + sign_extend (instr AND 0x1FF) 9) sf = Inr (a, sa) \<and> a \<noteq> 0xFFFF \<or>
       drop_bit 12 instr = OP_LDR \<and>
         reg sf (reg_field 6 instr) + sign_extend (instr AND 0x3F) 6 \<noteq> 0xFFFF) \<longrightarrow>
      (\<exists>s'. step s = Inr s' \<and>
        reg s' R_COND \<in> {FL_POS, FL_ZRO, FL_NEG} \<and>
        reg s' R_COND = (if reg s' (reg_field 9 instr) = 0 then FL_ZRO
                         else if bit (reg s' (reg_field 9 instr)) 15 then FL_NEG else FL_POS) \<and>
        reg s' R_COND = (if sint (reg s' (reg_field 9 instr)) = 0 then FL_ZRO
                         else if sint (reg s' (reg_field 9 instr)) < 0 then FL_NEG else FL_POS))) \<and>
   (fetch s = Inr (instr, sf) \<and>
      drop_bit 12 instr = OP_TRAP \<and> instr AND 0xFF \<in> {TRAP_GETC, TRAP_IN} \<longrightarrow>
      (\<exists>s'. step s = Inr s' \<and>
        reg s' R_COND \<in> {FL_POS, FL_ZRO, FL_NEG} \<and>
        reg s' R_COND = (if reg s' R_R0 = 0 then FL_ZRO
                         else if bit (reg s' R_R0) 15 then FL_NEG else FL_POS) \<and>
        reg s' R_COND = (if sint (reg s' R_R0) = 0 then FL_ZRO
                         else if sint (reg s' R_R0) < 0 then FL_NEG else FL_POS))) \<and>
   (fetch s = Inr (instr, sf) \<and> step s = Inr s' \<and>
      drop_bit 12 instr \<in> {OP_ADD, OP_AND, OP_NOT, OP_LD, OP_LDI, OP_LDR, OP_LEA} \<longrightarrow>
        reg s' R_COND \<in> {FL_POS, FL_ZRO, FL_NEG} \<and>
        reg s' R_COND = (if reg s' (reg_field 9 instr) = 0 then FL_ZRO
                         else if bit (reg s' (reg_field 9 instr)) 15 then FL_NEG else FL_POS) \<and>
        reg s' R_COND = (if sint (reg s' (reg_field 9 instr)) = 0 then FL_ZRO
                         else if sint (reg s' (reg_field 9 instr)) < 0 then FL_NEG else FL_POS)) \<and>
   (loop n (main_setup b) = Inr sn \<longrightarrow> reg sn R_COND \<in> {FL_POS, FL_ZRO, FL_NEG}) \<and>
   (loop n (main_setup b) = Inl (f, sn) \<longrightarrow> reg sn R_COND \<in> {FL_POS, FL_ZRO, FL_NEG})"
proof -
  have init: "reg (main_setup b) R_COND \<in> {FL_POS, FL_ZRO, FL_NEG}"
    by (simp only: main_setup_cond) simp
  have written: "reg t R_COND \<in> {FL_POS, FL_ZRO, FL_NEG} \<and>
        reg t R_COND = (if reg t (reg_field 9 instr) = 0 then FL_ZRO
                         else if bit (reg t (reg_field 9 instr)) 15 then FL_NEG else FL_POS) \<and>
        reg t R_COND = (if sint (reg t (reg_field 9 instr)) = 0 then FL_ZRO
                         else if sint (reg t (reg_field 9 instr)) < 0 then FL_NEG else FL_POS)"
    if e: "execute instr sf = Inr t"
      and o: "drop_bit 12 instr \<in> {OP_ADD, OP_AND, OP_NOT, OP_LD, OP_LDI, OP_LDR, OP_LEA}" for t
  proof -
    from execute_register_write [OF e o] obtain u g v where
      "t = update_flags (reg_field 9 instr) (u\<lparr>reg := g(reg_field 9 instr := v)\<rparr>)" by blast
    from flags_of_written_register [OF reg_field_neq_cond this] show ?thesis .
  qed
  have 1: "(fetch s = Inr (instr, sf) \<and>
      (drop_bit 12 instr \<in> {OP_ADD, OP_AND, OP_NOT, OP_LEA} \<or>
       drop_bit 12 instr = OP_LD \<and> reg sf R_PC + sign_extend (instr AND 0x1FF) 9 \<noteq> 0xFFFF \<or>
       drop_bit 12 instr = OP_LDI \<and>
         mem_read (reg sf R_PC + sign_extend (instr AND 0x1FF) 9) sf = Inr (a, sa) \<and> a \<noteq> 0xFFFF \<or>
       drop_bit 12 instr = OP_LDR \<and>
         reg sf (reg_field 6 instr) + sign_extend (instr AND 0x3F) 6 \<noteq> 0xFFFF)) \<longrightarrow>
      (\<exists>s'. step s = Inr s' \<and>
        reg s' R_COND \<in> {FL_POS, FL_ZRO, FL_NEG} \<and>
        reg s' R_COND = (if reg s' (reg_field 9 instr) = 0 then FL_ZRO
                         else if bit (reg s' (reg_field 9 instr)) 15 then FL_NEG else FL_POS) \<and>
        reg s' R_COND = (if sint (reg s' (reg_field 9 instr)) = 0 then FL_ZRO
                         else if sint (reg s' (reg_field 9 instr)) < 0 then FL_NEG else FL_POS))"
  proof (rule impI)
    assume a: "fetch s = Inr (instr, sf) \<and>
      (drop_bit 12 instr \<in> {OP_ADD, OP_AND, OP_NOT, OP_LEA} \<or>
       drop_bit 12 instr = OP_LD \<and> reg sf R_PC + sign_extend (instr AND 0x1FF) 9 \<noteq> 0xFFFF \<or>
       drop_bit 12 instr = OP_LDI \<and>
         mem_read (reg sf R_PC + sign_extend (instr AND 0x1FF) 9) sf = Inr (a, sa) \<and> a \<noteq> 0xFFFF \<or>
       drop_bit 12 instr = OP_LDR \<and>
         reg sf (reg_field 6 instr) + sign_extend (instr AND 0x3F) 6 \<noteq> 0xFFFF)"
    show "\<exists>s'. step s = Inr s' \<and>
        reg s' R_COND \<in> {FL_POS, FL_ZRO, FL_NEG} \<and>
        reg s' R_COND = (if reg s' (reg_field 9 instr) = 0 then FL_ZRO
                         else if bit (reg s' (reg_field 9 instr)) 15 then FL_NEG else FL_POS) \<and>
        reg s' R_COND = (if sint (reg s' (reg_field 9 instr)) = 0 then FL_ZRO
                         else if sint (reg s' (reg_field 9 instr)) < 0 then FL_NEG else FL_POS)"
    proof -
      note f = a [THEN conjunct1]
      from a [THEN conjunct2] consider
        (alu) "drop_bit 12 instr \<in> {OP_ADD, OP_AND, OP_NOT, OP_LEA}"
        | (ld) "drop_bit 12 instr = OP_LD" "reg sf R_PC + sign_extend (instr AND 0x1FF) 9 \<noteq> 0xFFFF"
        | (ldi) "drop_bit 12 instr = OP_LDI"
            "mem_read (reg sf R_PC + sign_extend (instr AND 0x1FF) 9) sf = Inr (a, sa)" "a \<noteq> 0xFFFF"
        | (ldr) "drop_bit 12 instr = OP_LDR"
            "reg sf (reg_field 6 instr) + sign_extend (instr AND 0x3F) 6 \<noteq> 0xFFFF"
        by (elim disjE conjE)
      then have "(\<exists>t. execute instr sf = Inr t) \<and>
          drop_bit 12 instr \<in> {OP_ADD, OP_AND, OP_NOT, OP_LD, OP_LDI, OP_LDR, OP_LEA}"
      proof cases
        case alu
        from alu_completes [OF alu] alu show ?thesis by (intro conjI) auto
      next
        case ld
        from ld_completes [OF ld] ld(1) show ?thesis by (intro conjI) simp_all
      next
        case ldi
        from ldi_completes [OF ldi] ldi(1) show ?thesis by (intro conjI) simp_all
      next
        case ldr
        from ldr_completes [OF ldr] ldr(1) show ?thesis by (intro conjI) simp_all
      qed
      note ex = this [THEN conjunct1] and o = this [THEN conjunct2]
      from ex obtain t where e: "execute instr sf = Inr t" by (rule exE)
      then have st: "step s = Inr t" by (simp only: step_after_fetch [OF f])
      from conjI [OF st written [OF e o]] show ?thesis by (rule exI)
    qed
  qed
  have 2: "(fetch s = Inr (instr, sf) \<and>
      drop_bit 12 instr = OP_TRAP \<and> instr AND 0xFF \<in> {TRAP_GETC, TRAP_IN}) \<longrightarrow>
      (\<exists>s'. step s = Inr s' \<and>
        reg s' R_COND \<in> {FL_POS, FL_ZRO, FL_NEG} \<and>
        reg s' R_COND = (if reg s' R_R0 = 0 then FL_ZRO
                         else if bit (reg s' R_R0) 15 then FL_NEG else FL_POS) \<and>
        reg s' R_COND = (if sint (reg s' R_R0) = 0 then FL_ZRO
                         else if sint (reg s' R_R0) < 0 then FL_NEG else FL_POS))"
  proof (rule impI)
    assume a: "fetch s = Inr (instr, sf) \<and>
      drop_bit 12 instr = OP_TRAP \<and> instr AND 0xFF \<in> {TRAP_GETC, TRAP_IN}"
    show "\<exists>s'. step s = Inr s' \<and>
        reg s' R_COND \<in> {FL_POS, FL_ZRO, FL_NEG} \<and>
        reg s' R_COND = (if reg s' R_R0 = 0 then FL_ZRO
                         else if bit (reg s' R_R0) 15 then FL_NEG else FL_POS) \<and>
        reg s' R_COND = (if sint (reg s' R_R0) = 0 then FL_ZRO
                         else if sint (reg s' R_R0) < 0 then FL_NEG else FL_POS)"
    proof -
      note f = a [THEN conjunct1] and d = a [THEN conjunct2, THEN conjunct1]
        and o = a [THEN conjunct2, THEN conjunct2]
      from trap_input_completes [OF d o] obtain t where e: "execute instr sf = Inr t" by (rule exE)
      then have st: "step s = Inr t" by (simp only: step_after_fetch [OF f])
      from e d have "op_trap instr sf = Inr t" by (simp add: execute_def)
      from trap_input_form [OF this o] obtain u g v where
        t: "t = update_flags R_R0 (u\<lparr>reg := g(R_R0 := v)\<rparr>)" by blast
      have "R_R0 \<noteq> R_COND" by simp
      from conjI [OF st flags_of_written_register [OF this t]] show ?thesis by (rule exI)
    qed
  qed
  have 3: "(fetch s = Inr (instr, sf) \<and> step s = Inr s' \<and>
      drop_bit 12 instr \<in> {OP_ADD, OP_AND, OP_NOT, OP_LD, OP_LDI, OP_LDR, OP_LEA}) \<longrightarrow>
      (reg s' R_COND \<in> {FL_POS, FL_ZRO, FL_NEG} \<and>
        reg s' R_COND = (if reg s' (reg_field 9 instr) = 0 then FL_ZRO
                         else if bit (reg s' (reg_field 9 instr)) 15 then FL_NEG else FL_POS) \<and>
        reg s' R_COND = (if sint (reg s' (reg_field 9 instr)) = 0 then FL_ZRO
                         else if sint (reg s' (reg_field 9 instr)) < 0 then FL_NEG else FL_POS))"
  proof (rule impI)
    assume a: "fetch s = Inr (instr, sf) \<and> step s = Inr s' \<and>
      drop_bit 12 instr \<in> {OP_ADD, OP_AND, OP_NOT, OP_LD, OP_LDI, OP_LDR, OP_LEA}"
    show "reg s' R_COND \<in> {FL_POS, FL_ZRO, FL_NEG} \<and>
        reg s' R_COND = (if reg s' (reg_field 9 instr) = 0 then FL_ZRO
                         else if bit (reg s' (reg_field 9 instr)) 15 then FL_NEG else FL_POS) \<and>
        reg s' R_COND = (if sint (reg s' (reg_field 9 instr)) = 0 then FL_ZRO
                         else if sint (reg s' (reg_field 9 instr)) < 0 then FL_NEG else FL_POS)"
    proof -
      note f = a [THEN conjunct1] and st = a [THEN conjunct2, THEN conjunct1]
        and o = a [THEN conjunct2, THEN conjunct2]
      from st have e: "execute instr sf = Inr s'" by (simp only: step_after_fetch [OF f])
      from written [OF e o] show ?thesis .
    qed
  qed
  have 4: "loop n (main_setup b) = Inr sn \<longrightarrow> reg sn R_COND \<in> {FL_POS, FL_ZRO, FL_NEG}"
    by (rule impI) (rule loop_cond(1) [OF init])
  have 5: "loop n (main_setup b) = Inl (f, sn) \<longrightarrow> reg sn R_COND \<in> {FL_POS, FL_ZRO, FL_NEG}"
    by (rule impI) (rule loop_cond(2) [OF init])
  show ?thesis
    by (rule conjI [OF 1 conjI [OF 2 conjI [OF 3 conjI [OF 4 5]]]])
qed

text \<open>
  The theorem on the program \<^verbatim>\<open>ADD R1, R1, #-1\<close>; \<^verbatim>\<open>LD R2, #4\<close>; \<^verbatim>\<open>LDI R3, #3\<close>;
  \<^verbatim>\<open>LDR R4, R2, #1\<close>; \<^verbatim>\<open>TRAP GETC\<close>; \<^verbatim>\<open>TRAP 0xFF\<close> at \<open>0x3000\<close>, with the data
  \<open>0x3007, 0x8001, 0\<close> from \<open>0x3006\<close> on and the key \<open>A\<close> typed: \<open>R1 = 0xFFFF\<close> with
  \<^verbatim>\<open>FL_NEG\<close>, \<open>R2 = 0x3007\<close> with \<^verbatim>\<open>FL_POS\<close>, \<open>R3 = 0x8001\<close> with \<^verbatim>\<open>FL_NEG\<close>, \<open>R4 = 0\<close>
  with \<^verbatim>\<open>FL_ZRO\<close>, \<open>R0 = 0x41\<close> with \<^verbatim>\<open>FL_POS\<close>, then the abort.
\<close>

theorem condition_flags_one_hot_witness:
  "(\<exists>sf s'. fetch (main_setup ((boot [0x41])\<lparr>memory :=
                  (\<lambda>_. 0)(0x3000 := 0x127F, 0x3001 := 0x2404, 0x3002 := 0xA603, 0x3003 := 0x6881,
                          0x3004 := 0xF020, 0x3005 := 0xF0FF, 0x3006 := 0x3007, 0x3007 := 0x8001)\<rparr>))
               = Inr (0x127F, sf) \<and>
            drop_bit 12 (0x127F :: 16 word) \<in> {OP_ADD, OP_AND, OP_NOT, OP_LEA} \<and>
            drop_bit 12 (0x127F :: 16 word) \<in> {OP_ADD, OP_AND, OP_NOT, OP_LD, OP_LDI, OP_LDR, OP_LEA} \<and>
            step (main_setup ((boot [0x41])\<lparr>memory :=
                  (\<lambda>_. 0)(0x3000 := 0x127F, 0x3001 := 0x2404, 0x3002 := 0xA603, 0x3003 := 0x6881,
                          0x3004 := 0xF020, 0x3005 := 0xF0FF, 0x3006 := 0x3007, 0x3007 := 0x8001)\<rparr>))
               = Inr s' \<and>
            reg s' R_R1 = 0xFFFF \<and> reg s' R_COND = FL_NEG) \<and>
   (\<exists>s sf s'. loop (Suc 0) (main_setup ((boot [0x41])\<lparr>memory :=
                  (\<lambda>_. 0)(0x3000 := 0x127F, 0x3001 := 0x2404, 0x3002 := 0xA603, 0x3003 := 0x6881,
                          0x3004 := 0xF020, 0x3005 := 0xF0FF, 0x3006 := 0x3007, 0x3007 := 0x8001)\<rparr>))
               = Inr s \<and>
            fetch s = Inr (0x2404, sf) \<and> drop_bit 12 (0x2404 :: 16 word) = OP_LD \<and>
            reg sf R_PC + sign_extend (0x2404 AND 0x1FF) 9 \<noteq> 0xFFFF \<and>
            step s = Inr s' \<and> reg s' R_R2 = 0x3007 \<and> reg s' R_COND = FL_POS) \<and>
   (\<exists>s sf sa s'. loop (Suc (Suc 0)) (main_setup ((boot [0x41])\<lparr>memory :=
                  (\<lambda>_. 0)(0x3000 := 0x127F, 0x3001 := 0x2404, 0x3002 := 0xA603, 0x3003 := 0x6881,
                          0x3004 := 0xF020, 0x3005 := 0xF0FF, 0x3006 := 0x3007, 0x3007 := 0x8001)\<rparr>))
               = Inr s \<and>
            fetch s = Inr (0xA603, sf) \<and> drop_bit 12 (0xA603 :: 16 word) = OP_LDI \<and>
            mem_read (reg sf R_PC + sign_extend (0xA603 AND 0x1FF) 9) sf = Inr (0x3007, sa) \<and>
            (0x3007 :: 16 word) \<noteq> 0xFFFF \<and>
            step s = Inr s' \<and> reg s' R_R3 = 0x8001 \<and> reg s' R_COND = FL_NEG) \<and>
   (\<exists>s sf s'. loop (Suc (Suc (Suc 0))) (main_setup ((boot [0x41])\<lparr>memory :=
                  (\<lambda>_. 0)(0x3000 := 0x127F, 0x3001 := 0x2404, 0x3002 := 0xA603, 0x3003 := 0x6881,
                          0x3004 := 0xF020, 0x3005 := 0xF0FF, 0x3006 := 0x3007, 0x3007 := 0x8001)\<rparr>))
               = Inr s \<and>
            fetch s = Inr (0x6881, sf) \<and> drop_bit 12 (0x6881 :: 16 word) = OP_LDR \<and>
            reg sf (reg_field 6 0x6881) + sign_extend (0x6881 AND 0x3F) 6 \<noteq> 0xFFFF \<and>
            step s = Inr s' \<and> reg s' R_R4 = 0 \<and> reg s' R_COND = FL_ZRO) \<and>
   (\<exists>s sf s'. loop (Suc (Suc (Suc (Suc 0)))) (main_setup ((boot [0x41])\<lparr>memory :=
                  (\<lambda>_. 0)(0x3000 := 0x127F, 0x3001 := 0x2404, 0x3002 := 0xA603, 0x3003 := 0x6881,
                          0x3004 := 0xF020, 0x3005 := 0xF0FF, 0x3006 := 0x3007, 0x3007 := 0x8001)\<rparr>))
               = Inr s \<and>
            fetch s = Inr (0xF020, sf) \<and> drop_bit 12 (0xF020 :: 16 word) = OP_TRAP \<and>
            (0xF020 :: 16 word) AND 0xFF \<in> {TRAP_GETC, TRAP_IN} \<and>
            step s = Inr s' \<and> reg s' R_R0 = 0x41 \<and> reg s' R_COND = FL_POS) \<and>
   (\<exists>sn. loop (Suc (Suc (Suc (Suc (Suc 0))))) (main_setup ((boot [0x41])\<lparr>memory :=
                  (\<lambda>_. 0)(0x3000 := 0x127F, 0x3001 := 0x2404, 0x3002 := 0xA603, 0x3003 := 0x6881,
                          0x3004 := 0xF020, 0x3005 := 0xF0FF, 0x3006 := 0x3007, 0x3007 := 0x8001)\<rparr>))
               = Inr sn \<and>
            reg sn R_COND \<in> {FL_POS, FL_ZRO, FL_NEG}) \<and>
   (\<exists>sn. loop (Suc (Suc (Suc (Suc (Suc (Suc 0)))))) (main_setup ((boot [0x41])\<lparr>memory :=
                  (\<lambda>_. 0)(0x3000 := 0x127F, 0x3001 := 0x2404, 0x3002 := 0xA603, 0x3003 := 0x6881,
                          0x3004 := 0xF020, 0x3005 := 0xF0FF, 0x3006 := 0x3007, 0x3007 := 0x8001)\<rparr>))
               = Inl (Abort, sn) \<and>
            reg sn R_COND \<in> {FL_POS, FL_ZRO, FL_NEG})"
proof -
  let ?b = "(boot [0x41])\<lparr>memory :=
                  (\<lambda>_. 0)(0x3000 := 0x127F, 0x3001 := 0x2404, 0x3002 := 0xA603, 0x3003 := 0x6881,
                          0x3004 := 0xF020, 0x3005 := 0xF0FF, 0x3006 := 0x3007, 0x3007 := 0x8001)\<rparr>"
  let ?S = "main_setup ?b"
  note defs = step_def fetch_def mem_read_def main_setup_def boot_def execute_def op_add_def
    op_ld_def op_ldi_def op_ldr_def op_trap_def reg_field_def sign_extend_def update_flags_def
    getchar_def
  note T = condition_flags_one_hot
  have o1: "drop_bit 12 (0x127F :: 16 word) \<in> {OP_ADD, OP_AND, OP_NOT, OP_LEA}"
    and o1': "drop_bit 12 (0x127F :: 16 word) \<in> {OP_ADD, OP_AND, OP_NOT, OP_LD, OP_LDI, OP_LDR, OP_LEA}"
    and o2: "drop_bit 12 (0x2404 :: 16 word) = OP_LD"
    and o3: "drop_bit 12 (0xA603 :: 16 word) = OP_LDI" "(0x3007 :: 16 word) \<noteq> 0xFFFF"
    and o4: "drop_bit 12 (0x6881 :: 16 word) = OP_LDR"
    and o5: "drop_bit 12 (0xF020 :: 16 word) = OP_TRAP"
      "(0xF020 :: 16 word) AND 0xFF \<in> {TRAP_GETC, TRAP_IN}"
    by simp_all
  have f2: "reg_field 9 0x127F = R_R1" "reg_field 9 0x2404 = R_R2" "reg_field 9 0xA603 = R_R3"
    "reg_field 9 0x6881 = R_R4" by (simp_all add: reg_field_def)
  have "\<exists>sf s'. fetch ?S = Inr (0x127F, sf) \<and> step ?S = Inr s' \<and> reg s' R_R1 = 0xFFFF"
    by (simp add: defs)
  then obtain a1 a2 where a: "fetch ?S = Inr (0x127F, a1)" "step ?S = Inr a2"
    and ar: "reg a2 R_R1 = 0xFFFF" by blast
  from T [of ?S "0x127F" a1, THEN conjunct1] a(1) o1
  have "\<exists>s'. step ?S = Inr s' \<and> reg s' R_COND =
          (if reg s' (reg_field 9 0x127F) = 0 then FL_ZRO
           else if bit (reg s' (reg_field 9 0x127F)) 15 then FL_NEG else FL_POS)" by blast
  with a(2) ar have ac: "reg a2 R_COND = FL_NEG" by (auto simp add: f2)
  from T [of ?S "0x127F" a1 _ _ a2, THEN conjunct2, THEN conjunct2, THEN conjunct1] a o1'
  have "reg a2 R_COND \<in> {FL_POS, FL_ZRO, FL_NEG}" by blast
  have "\<exists>s sf s'. loop (Suc 0) ?S = Inr s \<and> fetch s = Inr (0x2404, sf) \<and>
          reg sf R_PC + sign_extend (0x2404 AND 0x1FF) 9 \<noteq> 0xFFFF \<and>
          step s = Inr s' \<and> reg s' R_R2 = 0x3007"
    by (simp add: defs)
  then obtain b0 b1 b2 where b: "loop (Suc 0) ?S = Inr b0" "fetch b0 = Inr (0x2404, b1)"
    "reg b1 R_PC + sign_extend (0x2404 AND 0x1FF) 9 \<noteq> 0xFFFF" "step b0 = Inr b2"
    and br: "reg b2 R_R2 = 0x3007" by blast
  from T [of b0 "0x2404" b1, THEN conjunct1] b(2,3) o2
  have "\<exists>s'. step b0 = Inr s' \<and> reg s' R_COND =
          (if reg s' (reg_field 9 0x2404) = 0 then FL_ZRO
           else if bit (reg s' (reg_field 9 0x2404)) 15 then FL_NEG else FL_POS)" by blast
  with b(4) br have bc: "reg b2 R_COND = FL_POS" by (auto simp add: f2)
  have "\<exists>s sf sa s'. loop (Suc (Suc 0)) ?S = Inr s \<and> fetch s = Inr (0xA603, sf) \<and>
          mem_read (reg sf R_PC + sign_extend (0xA603 AND 0x1FF) 9) sf = Inr (0x3007, sa) \<and>
          step s = Inr s' \<and> reg s' R_R3 = 0x8001"
    by (simp add: defs)
  then obtain c0 c1 ca c2 where c: "loop (Suc (Suc 0)) ?S = Inr c0" "fetch c0 = Inr (0xA603, c1)"
    "mem_read (reg c1 R_PC + sign_extend (0xA603 AND 0x1FF) 9) c1 = Inr (0x3007, ca)"
    "step c0 = Inr c2" and cr: "reg c2 R_R3 = 0x8001" by blast
  from T [of c0 "0xA603" c1 "0x3007" ca, THEN conjunct1] c(2,3) o3
  have "\<exists>s'. step c0 = Inr s' \<and> reg s' R_COND =
          (if reg s' (reg_field 9 0xA603) = 0 then FL_ZRO
           else if bit (reg s' (reg_field 9 0xA603)) 15 then FL_NEG else FL_POS)" by blast
  with c(4) cr have cc: "reg c2 R_COND = FL_NEG" by (auto simp add: f2)
  have "\<exists>s sf s'. loop (Suc (Suc (Suc 0))) ?S = Inr s \<and> fetch s = Inr (0x6881, sf) \<and>
          reg sf (reg_field 6 0x6881) + sign_extend (0x6881 AND 0x3F) 6 \<noteq> 0xFFFF \<and>
          step s = Inr s' \<and> reg s' R_R4 = 0"
    by (simp add: defs)
  then obtain d0 d1 d2 where d: "loop (Suc (Suc (Suc 0))) ?S = Inr d0" "fetch d0 = Inr (0x6881, d1)"
    "reg d1 (reg_field 6 0x6881) + sign_extend (0x6881 AND 0x3F) 6 \<noteq> 0xFFFF" "step d0 = Inr d2"
    and dr: "reg d2 R_R4 = 0" by blast
  from T [of d0 "0x6881" d1, THEN conjunct1] d(2,3) o4
  have "\<exists>s'. step d0 = Inr s' \<and> reg s' R_COND =
          (if reg s' (reg_field 9 0x6881) = 0 then FL_ZRO
           else if bit (reg s' (reg_field 9 0x6881)) 15 then FL_NEG else FL_POS)" by blast
  with d(4) dr have dc: "reg d2 R_COND = FL_ZRO" by (auto simp add: f2)
  have "\<exists>s sf s'. loop (Suc (Suc (Suc (Suc 0)))) ?S = Inr s \<and> fetch s = Inr (0xF020, sf) \<and>
          step s = Inr s' \<and> reg s' R_R0 = 0x41"
    by (simp add: defs)
  then obtain e0 e1 e2 where e: "loop (Suc (Suc (Suc (Suc 0)))) ?S = Inr e0"
    "fetch e0 = Inr (0xF020, e1)" "step e0 = Inr e2" and er: "reg e2 R_R0 = 0x41" by blast
  from T [of e0 "0xF020" e1, THEN conjunct2, THEN conjunct1] e(2) o5
  have "\<exists>s'. step e0 = Inr s' \<and> reg s' R_COND =
          (if reg s' R_R0 = 0 then FL_ZRO
           else if bit (reg s' R_R0) 15 then FL_NEG else FL_POS)" by blast
  with e(3) er have ec: "reg e2 R_COND = FL_POS" by auto
  have "\<exists>sn. loop (Suc (Suc (Suc (Suc (Suc 0))))) ?S = Inr sn" by (simp add: defs)
  then obtain u where u: "loop (Suc (Suc (Suc (Suc (Suc 0))))) ?S = Inr u" by blast
  from T [of _ _ _ _ _ _ "Suc (Suc (Suc (Suc (Suc 0))))" ?b u,
      THEN conjunct2, THEN conjunct2, THEN conjunct2, THEN conjunct1] u
  have uc: "reg u R_COND \<in> {FL_POS, FL_ZRO, FL_NEG}" by (rule mp)
  have "\<exists>sn. loop (Suc (Suc (Suc (Suc (Suc (Suc 0)))))) ?S = Inl (Abort, sn)" by (simp add: defs)
  then obtain w where w: "loop (Suc (Suc (Suc (Suc (Suc (Suc 0)))))) ?S = Inl (Abort, w)" by blast
  from T [of _ _ _ _ _ _ "Suc (Suc (Suc (Suc (Suc (Suc 0)))))" ?b w Abort,
      THEN conjunct2, THEN conjunct2, THEN conjunct2, THEN conjunct2] w
  have wc: "reg w R_COND \<in> {FL_POS, FL_ZRO, FL_NEG}" by (rule mp)
  have A: "\<exists>sf s'. fetch ?S = Inr (0x127F, sf) \<and>
            drop_bit 12 (0x127F :: 16 word) \<in> {OP_ADD, OP_AND, OP_NOT, OP_LEA} \<and>
            drop_bit 12 (0x127F :: 16 word) \<in> {OP_ADD, OP_AND, OP_NOT, OP_LD, OP_LDI, OP_LDR, OP_LEA} \<and>
            step ?S = Inr s' \<and> reg s' R_R1 = 0xFFFF \<and> reg s' R_COND = FL_NEG"
    using a ar ac o1 o1' by blast
  have B: "\<exists>s sf s'. loop (Suc 0) ?S = Inr s \<and>
            fetch s = Inr (0x2404, sf) \<and> drop_bit 12 (0x2404 :: 16 word) = OP_LD \<and>
            reg sf R_PC + sign_extend (0x2404 AND 0x1FF) 9 \<noteq> 0xFFFF \<and>
            step s = Inr s' \<and> reg s' R_R2 = 0x3007 \<and> reg s' R_COND = FL_POS"
    using b br bc o2 by blast
  have C: "\<exists>s sf sa s'. loop (Suc (Suc 0)) ?S = Inr s \<and>
            fetch s = Inr (0xA603, sf) \<and> drop_bit 12 (0xA603 :: 16 word) = OP_LDI \<and>
            mem_read (reg sf R_PC + sign_extend (0xA603 AND 0x1FF) 9) sf = Inr (0x3007, sa) \<and>
            (0x3007 :: 16 word) \<noteq> 0xFFFF \<and>
            step s = Inr s' \<and> reg s' R_R3 = 0x8001 \<and> reg s' R_COND = FL_NEG"
    using c cr cc o3 by blast
  have D: "\<exists>s sf s'. loop (Suc (Suc (Suc 0))) ?S = Inr s \<and>
            fetch s = Inr (0x6881, sf) \<and> drop_bit 12 (0x6881 :: 16 word) = OP_LDR \<and>
            reg sf (reg_field 6 0x6881) + sign_extend (0x6881 AND 0x3F) 6 \<noteq> 0xFFFF \<and>
            step s = Inr s' \<and> reg s' R_R4 = 0 \<and> reg s' R_COND = FL_ZRO"
    using d dr dc o4 by blast
  have E: "\<exists>s sf s'. loop (Suc (Suc (Suc (Suc 0)))) ?S = Inr s \<and>
            fetch s = Inr (0xF020, sf) \<and> drop_bit 12 (0xF020 :: 16 word) = OP_TRAP \<and>
            (0xF020 :: 16 word) AND 0xFF \<in> {TRAP_GETC, TRAP_IN} \<and>
            step s = Inr s' \<and> reg s' R_R0 = 0x41 \<and> reg s' R_COND = FL_POS"
    using e er ec o5 by blast
  have F: "\<exists>sn. loop (Suc (Suc (Suc (Suc (Suc 0))))) ?S = Inr sn \<and>
            reg sn R_COND \<in> {FL_POS, FL_ZRO, FL_NEG}"
    using u uc by blast
  have G: "\<exists>sn. loop (Suc (Suc (Suc (Suc (Suc (Suc 0)))))) ?S = Inl (Abort, sn) \<and>
            reg sn R_COND \<in> {FL_POS, FL_ZRO, FL_NEG}"
    using w wc by blast
  show ?thesis
    by (rule conjI [OF A conjI [OF B conjI [OF C conjI [OF D conjI [OF E conjI [OF F G]]]]]])
qed

end
